theory Spec2Isabelle
  imports Main
begin

chapter \<open>Embedding of the Kubernetes tutorial's simulators and progress store\<close>

section \<open>The browser's timer queue\<close>

text \<open>
  Every simulator schedules its steps with \<^verbatim>\<open>setTimeout\<close> and cancels them with
  \<^verbatim>\<open>clearTimeout\<close>. The queue is part of the state: a clock in milliseconds, the next
  handle (handles are positive, so that a stored handle is truthy) and the pending timers
  in the order they were created. A callback is a value of the component's own datatype
  of closures, holding what the closure captured.
\<close>

record 'a timer =
  tid :: nat
  due :: nat
  callback :: 'a

record 'a eventLoop =
  now :: nat
  nextId :: nat
  pending :: "'a timer list"

definition emptyLoop :: "'a eventLoop" where
  "emptyLoop = \<lparr>now = 0, nextId = 1, pending = []\<rparr>"

definition setTimeout :: "'a \<Rightarrow> nat \<Rightarrow> 'a eventLoop \<Rightarrow> nat \<times> 'a eventLoop" where
  "setTimeout cb delay l =
     (nextId l,
      l\<lparr>nextId := Suc (nextId l),
        pending := pending l @ [\<lparr>tid = nextId l, due = now l + delay, callback = cb\<rparr>]\<rparr>)"

definition clearTimeout :: "nat \<Rightarrow> 'a eventLoop \<Rightarrow> 'a eventLoop" where
  "clearTimeout i l = l\<lparr>pending := filter (\<lambda>t. tid t \<noteq> i) (pending l)\<rparr>"

text \<open>The timer that fires next: the earliest due, the earlier created among equals.\<close>

fun earliest :: "'a timer list \<Rightarrow> 'a timer option" where
  "earliest [] = None"
| "earliest (t # ts) =
     (case earliest ts of
        None \<Rightarrow> Some t
      | Some u \<Rightarrow> if due u < due t then Some u else Some t)"

definition popTimer :: "'a eventLoop \<Rightarrow> ('a \<times> 'a eventLoop) option" where
  "popTimer l =
     (case earliest (pending l) of
        None \<Rightarrow> None
      | Some t \<Rightarrow>
          Some (callback t,
                l\<lparr>now := max (now l) (due t),
                  pending := filter (\<lambda>u. tid u \<noteq> tid t) (pending l)\<rparr>))"

text \<open>Time passing with no timer firing: the clock moves up to the next due time at most.\<close>

definition idle :: "nat \<Rightarrow> 'a eventLoop \<Rightarrow> 'a eventLoop" where
  "idle d l =
     (case earliest (pending l) of
        None \<Rightarrow> l\<lparr>now := now l + d\<rparr>
      | Some t \<Rightarrow> l\<lparr>now := max (now l) (min (now l + d) (due t))\<rparr>)"

text \<open>A component tracks its timers when every pending handle is in its list of handles.\<close>

definition tracked :: "nat list \<Rightarrow> 'a eventLoop \<Rightarrow> bool" where
  "tracked ids l = (\<forall>t\<in>set (pending l). tid t \<in> set ids)"

section \<open>Rendering numbers in template strings\<close>

definition digitChar :: "nat \<Rightarrow> char" where
  "digitChar d = ''0123456789'' ! d"

fun showNat :: "nat \<Rightarrow> string" where
  "showNat n = (if n < 10 then [digitChar n] else showNat (n div 10) @ [digitChar (n mod 10)])"

declare showNat.simps [simp del]

definition showInt :: "int \<Rightarrow> string" where
  "showInt i = (if i < 0 then CHR ''-'' # showNat (nat (- i)) else showNat (nat i))"

section \<open>Progress store (stores/progressStore.ts)\<close>

type_synonym SectionId = nat

record ProgressState =
  currentSection :: SectionId
  visitedSections :: "SectionId list"
  completedExercises :: "SectionId list"



definition initialProgress :: ProgressState where
  "initialProgress =
     \<lparr>currentSection = 0, visitedSections = [0, 1, 2, 3, 4, 5, 6, 7, 8, 9],
      completedExercises = []\<rparr>"

text \<open>\<^verbatim>\<open>[...existing, section].sort((a, b) => a - b)\<close> is a stable ascending sort.\<close>

definition markVisited :: "SectionId \<Rightarrow> ProgressState \<Rightarrow> ProgressState" where
  "markVisited section s =
     (let existing = visitedSections s
      in if section \<notin> set existing
         then s\<lparr>visitedSections := sort (existing @ [section])\<rparr>
         else s)"

definition setCurrentSection :: "SectionId \<Rightarrow> ProgressState \<Rightarrow> ProgressState" where
  "setCurrentSection section s =
     (if currentSection s = section then s
      else markVisited section (s\<lparr>currentSection := section\<rparr>))"

definition markExerciseComplete :: "SectionId \<Rightarrow> ProgressState \<Rightarrow> ProgressState" where
  "markExerciseComplete section s =
     (let completed = completedExercises s
      in if section \<notin> set completed
         then s\<lparr>completedExercises := sort (completed @ [section])\<rparr>
         else s)"

definition resetProgress :: "ProgressState \<Rightarrow> ProgressState" where
  "resetProgress s =
     s\<lparr>currentSection := 0, visitedSections := [0, 1, 2, 3, 4, 5, 6, 7, 8, 9],
       completedExercises := []\<rparr>"

text \<open>The states the four operations reach from the initial one.\<close>

inductive reachableProgress :: "ProgressState \<Rightarrow> bool" where
  rp_init: "reachableProgress initialProgress"
| rp_setCurrent: "reachableProgress s \<Longrightarrow> reachableProgress (setCurrentSection i s)"
| rp_markVisited: "reachableProgress s \<Longrightarrow> reachableProgress (markVisited i s)"
| rp_markComplete: "reachableProgress s \<Longrightarrow> reachableProgress (markExerciseComplete i s)"
| rp_reset: "reachableProgress s \<Longrightarrow> reachableProgress (resetProgress s)"


section \<open>NetworkPolicy simulator (simulations/NetworkPolicySimulator.tsx)\<close>

record TrafficTest =
  id_tt :: nat
  from_tt :: string
  to_tt :: string
  allowed_tt :: bool

record TrafficResult =
  allowed :: bool
  from_res :: string
  to_res :: string

text \<open>
  The timer closure of \<^verbatim>\<open>sendTraffic\<close> captures \<^verbatim>\<open>from\<close>, \<^verbatim>\<open>to\<close> and the
  \<^verbatim>\<open>isBlocked\<close> of the render it was created in, hence that render's \<^verbatim>\<open>policyActive\<close>.
\<close>

datatype NetCb = Deliver string string bool

record netpol =
  policyActive :: bool
  sendingFrom :: "string option"
  sendingTo :: "string option"
  animating :: bool
  tests :: "TrafficTest list"
  lastResult :: "TrafficResult option"
  timeoutIds_np :: "nat list"
  isMounted_np :: bool
  testId :: nat
  loop_np :: "NetCb eventLoop"

definition netpolInit :: netpol where
  "netpolInit =
     \<lparr>policyActive = False, sendingFrom = None, sendingTo = None, animating = False,
      tests = [], lastResult = None, timeoutIds_np = [], isMounted_np = True, testId = 0,
      loop_np = emptyLoop\<rparr>"

definition isBlocked :: "bool \<Rightarrow> string \<Rightarrow> string \<Rightarrow> bool" where
  "isBlocked active from to =
     (if \<not> active then False
      else if to = ''database'' \<and> from \<noteq> ''api'' then True
      else False)"

definition sendTraffic :: "string \<Rightarrow> string \<Rightarrow> netpol \<Rightarrow> netpol" where
  "sendTraffic from to s =
     (if animating s \<or> from = to then s
      else
        let s1 = s\<lparr>animating := True, sendingFrom := Some from, sendingTo := Some to,
                   lastResult := None\<rparr>;
            (timeoutId, l) = setTimeout (Deliver from to (policyActive s)) 800 (loop_np s1)
        in s1\<lparr>loop_np := l, timeoutIds_np := timeoutIds_np s1 @ [timeoutId]\<rparr>)"

fun fireNet :: "NetCb \<Rightarrow> netpol \<Rightarrow> netpol" where
  "fireNet (Deliver from to active) s =
     (if \<not> isMounted_np s then s
      else
        let ok = \<not> isBlocked active from to;
            n = Suc (testId s)
        in s\<lparr>testId := n,
             tests := take 8 (\<lparr>id_tt = n, from_tt = from, to_tt = to, allowed_tt = ok\<rparr> # tests s),
             lastResult := Some \<lparr>allowed = ok, from_res = from, to_res = to\<rparr>,
             sendingFrom := None, sendingTo := None, animating := False\<rparr>)"

definition togglePolicy :: "netpol \<Rightarrow> netpol" where
  "togglePolicy s = s\<lparr>policyActive := \<not> policyActive s, lastResult := None\<rparr>"

definition unmountNet :: "netpol \<Rightarrow> netpol" where
  "unmountNet s =
     s\<lparr>isMounted_np := False,
       loop_np := fold clearTimeout (timeoutIds_np s) (loop_np s),
       timeoutIds_np := []\<rparr>"

definition stepNet :: "netpol \<Rightarrow> netpol" where
  "stepNet s =
     (case popTimer (loop_np s) of
        None \<Rightarrow> s
      | Some (cb, l) \<Rightarrow> fireNet cb (s\<lparr>loop_np := l\<rparr>))"

fun runNet :: "nat \<Rightarrow> netpol \<Rightarrow> netpol" where
  "runNet 0 s = s"
| "runNet (Suc n) s = runNet n (stepNet s)"

inductive reachableNet :: "netpol \<Rightarrow> bool" where
  rn_init: "reachableNet netpolInit"
| rn_send: "reachableNet s \<Longrightarrow> reachableNet (sendTraffic from to s)"
| rn_toggle: "reachableNet s \<Longrightarrow> reachableNet (togglePolicy s)"
| rn_step: "reachableNet s \<Longrightarrow> reachableNet (stepNet s)"
| rn_idle: "reachableNet s \<Longrightarrow> reachableNet (s\<lparr>loop_np := idle d (loop_np s)\<rparr>)"
| rn_unmount: "reachableNet s \<Longrightarrow> reachableNet (unmountNet s)"

text \<open>
  What the reachable states of the NetworkPolicy simulator keep: at most one delivery is
  pending, and only while \<^verbatim>\<open>animating\<close> is set, since \<^verbatim>\<open>sendTraffic\<close> returns at once
  while it is.
\<close>

definition netInv :: "netpol \<Rightarrow> bool" where
  "netInv s = (length (pending (loop_np s)) \<le> 1 \<and> (pending (loop_np s) \<noteq> [] \<longrightarrow> animating s))"

section \<open>Scheduler playground (simulations/SchedulerPlayground.tsx)\<close>

record Node =
  name_node :: string
  totalCpu :: int
  totalMemory :: int
  usedCpu :: int
  usedMemory :: int
  taints :: "string list option"

record PodPlacement =
  nodeName :: string
  reason :: string

record NodeFit =
  node :: Node
  availCpu :: int
  availMem :: int
  cpuFit :: bool
  memFit :: bool
  fits :: bool
  hasTaint :: bool

definition nodes :: "Node list" where
  "nodes =
     [\<lparr>name_node = ''node-1'', totalCpu = 4, totalMemory = 8, usedCpu = 1, usedMemory = 3,
       taints = None\<rparr>,
      \<lparr>name_node = ''node-2'', totalCpu = 2, totalMemory = 4, usedCpu = 1, usedMemory = 2,
       taints = None\<rparr>,
      \<lparr>name_node = ''node-3'', totalCpu = 8, totalMemory = 16, usedCpu = 6, usedMemory = 12,
       taints = Some [''gpu=true:NoSchedule'']\<rparr>]"

definition getNodeFit :: "int \<Rightarrow> int \<Rightarrow> Node \<Rightarrow> NodeFit" where
  "getNodeFit cpuReq memReq n =
     (let aCpu = totalCpu n - usedCpu n;
          aMem = totalMemory n - usedMemory n;
          cFit = (aCpu \<ge> cpuReq);
          mFit = (aMem \<ge> memReq);
          taint = ((case taints n of None \<Rightarrow> 0 | Some ts \<Rightarrow> length ts) > 0)
      in \<lparr>node = n, availCpu = aCpu, availMem = aMem, cpuFit = cFit, memFit = mFit,
          fits = (cFit \<and> mFit \<and> \<not> taint), hasTaint = taint\<rparr>)"

definition candidates :: "Node list \<Rightarrow> int \<Rightarrow> int \<Rightarrow> NodeFit list" where
  "candidates ns cpuReq memReq = filter fits (map (getNodeFit cpuReq memReq) ns)"

text \<open>
  \<^verbatim>\<open>candidates.sort((a, b) => (b.availCpu + b.availMem) - (a.availCpu + a.availMem))[0]\<close>:
  a stable sort by descending free CPU plus free memory, then the first element.
\<close>

definition pickBest :: "NodeFit list \<Rightarrow> NodeFit option" where
  "pickBest cs =
     (case sort_key (\<lambda>c. - (availCpu c + availMem c)) cs of
        [] \<Rightarrow> None
      | best # _ \<Rightarrow> Some best)"

definition pendingPlacement :: PodPlacement where
  "pendingPlacement =
     \<lparr>nodeName = '''',
      reason = ''No node has sufficient resources or all suitable nodes are tainted.''\<rparr>"

definition placementOf :: "NodeFit \<Rightarrow> PodPlacement" where
  "placementOf best =
     \<lparr>nodeName = name_node (node best),
      reason = ''Best fit: '' @ showInt (availCpu best) @ '' vCPU and ''
               @ showInt (availMem best) @ '' Gi available.''\<rparr>"

definition decide :: "Node list \<Rightarrow> int \<Rightarrow> int \<Rightarrow> PodPlacement" where
  "decide ns cpuReq memReq =
     (let cs = candidates ns cpuReq memReq
      in if length cs = 0 then pendingPlacement
         else case pickBest cs of
                None \<Rightarrow> pendingPlacement
              | Some best \<Rightarrow> placementOf best)"

text \<open>The timer closure of \<^verbatim>\<open>schedulePod\<close> captures the render's requests.\<close>

datatype SchedCb = Evaluate int int

record sched =
  cpuReq :: int
  memReq :: int
  scheduled :: "PodPlacement option"
  scheduling :: bool
  timeoutRef :: "nat option"
  isMounted_sc :: bool
  loop_sc :: "SchedCb eventLoop"

definition schedInit :: sched where
  "schedInit =
     \<lparr>cpuReq = 1, memReq = 2, scheduled = None, scheduling = False, timeoutRef = None,
      isMounted_sc = True, loop_sc = emptyLoop\<rparr>"

definition truthy :: "nat option \<Rightarrow> bool" where
  "truthy r = (case r of None \<Rightarrow> False | Some i \<Rightarrow> i \<noteq> 0)"

definition clearRef :: "nat option \<Rightarrow> 'a eventLoop \<Rightarrow> 'a eventLoop" where
  "clearRef r l = (case r of None \<Rightarrow> l | Some i \<Rightarrow> if i \<noteq> 0 then clearTimeout i l else l)"

definition schedulePod :: "sched \<Rightarrow> sched" where
  "schedulePod s =
     (let s1 = s\<lparr>scheduling := True, scheduled := None\<rparr>
      in if \<not> isMounted_sc s1 then s1
         else
           let l1 = clearRef (timeoutRef s1) (loop_sc s1);
               (i, l2) = setTimeout (Evaluate (cpuReq s) (memReq s)) 1200 l1
           in s1\<lparr>loop_sc := l2, timeoutRef := Some i\<rparr>)"

text \<open>The button: \<^verbatim>\<open>onClick={schedulePod} disabled={scheduling}\<close>.\<close>

definition clickSchedule :: "sched \<Rightarrow> sched" where
  "clickSchedule s = (if scheduling s then s else schedulePod s)"

fun fireSched :: "SchedCb \<Rightarrow> sched \<Rightarrow> sched" where
  "fireSched (Evaluate c m) s =
     (if \<not> isMounted_sc s then s
      else s\<lparr>scheduled := Some (decide nodes c m), scheduling := False\<rparr>)"

definition setCpuReq :: "int \<Rightarrow> sched \<Rightarrow> sched" where
  "setCpuReq v s = s\<lparr>cpuReq := v, scheduled := None\<rparr>"

definition setMemReq :: "int \<Rightarrow> sched \<Rightarrow> sched" where
  "setMemReq v s = s\<lparr>memReq := v, scheduled := None\<rparr>"

definition unmountSched :: "sched \<Rightarrow> sched" where
  "unmountSched s = s\<lparr>isMounted_sc := False, loop_sc := clearRef (timeoutRef s) (loop_sc s)\<rparr>"

definition stepSched :: "sched \<Rightarrow> sched" where
  "stepSched s =
     (case popTimer (loop_sc s) of
        None \<Rightarrow> s
      | Some (cb, l) \<Rightarrow> fireSched cb (s\<lparr>loop_sc := l\<rparr>))"

fun runSched :: "nat \<Rightarrow> sched \<Rightarrow> sched" where
  "runSched 0 s = s"
| "runSched (Suc n) s = runSched n (stepSched s)"

text \<open>
  The states of the scheduler playground: what the handlers, the timer and the unmount
  make of the initial state. \<^verbatim>\<open>schedulePod\<close> is taken at every state, also where the
  button that calls it is disabled.
\<close>

inductive reachableSched :: "sched \<Rightarrow> bool" where
  rs_init: "reachableSched schedInit"
| rs_schedule: "reachableSched s \<Longrightarrow> reachableSched (schedulePod s)"
| rs_cpu: "reachableSched s \<Longrightarrow> reachableSched (setCpuReq v s)"
| rs_mem: "reachableSched s \<Longrightarrow> reachableSched (setMemReq v s)"
| rs_step: "reachableSched s \<Longrightarrow> reachableSched (stepSched s)"
| rs_idle: "reachableSched s \<Longrightarrow> reachableSched (s\<lparr>loop_sc := idle d (loop_sc s)\<rparr>)"
| rs_unmount: "reachableSched s \<Longrightarrow> reachableSched (unmountSched s)"

text \<open>
  What the reachable states keep: every pending timer is the one whose handle
  \<^verbatim>\<open>timeoutRef\<close> holds, and that handle is truthy, so \<^verbatim>\<open>schedulePod\<close> cancels it.
\<close>

definition schedInv :: "sched \<Rightarrow> bool" where
  "schedInv s =
     (1 \<le> nextId (loop_sc s)
      \<and> (\<forall>t\<in>set (pending (loop_sc s)). timeoutRef s = Some (tid t) \<and> tid t \<noteq> 0))"

section \<open>Config and RBAC playground (simulations/ConfigAccessPlayground.tsx)\<close>

datatype ResourceType = configmap | secret
datatype RbacRole = viewer | editor | admin
datatype AccessResult = Allowed | Denied

record AccessAttempt =
  id_at :: nat
  action :: string
  resource :: ResourceType
  result :: AccessResult
  reason_at :: string

record configAccess =
  resourceType :: ResourceType
  role :: RbacRole
  showSecret :: bool
  attempts :: "AccessAttempt list"
  attemptId :: nat

fun roleName :: "RbacRole \<Rightarrow> string" where
  "roleName viewer = ''viewer''"
| "roleName editor = ''editor''"
| "roleName admin = ''admin''"

fun RBAC_PERMISSIONS :: "RbacRole \<Rightarrow> string list" where
  "RBAC_PERMISSIONS viewer = [''get'', ''list'', ''watch'']"
| "RBAC_PERMISSIONS editor = [''get'', ''list'', ''watch'', ''create'', ''update'', ''patch'']"
| "RBAC_PERMISSIONS admin =
     [''get'', ''list'', ''watch'', ''create'', ''update'', ''patch'', ''delete'']"

definition dquote :: string where
  "dquote = [CHR 0x22]"

definition tryAccess :: "string \<Rightarrow> ResourceType \<Rightarrow> configAccess \<Rightarrow> configAccess" where
  "tryAccess act res s =
     (let perms = RBAC_PERMISSIONS (role s);
          ok = (act \<in> set perms);
          n = Suc (attemptId s)
      in s\<lparr>attemptId := n,
           attempts :=
             take 6
               (\<lparr>id_at = n, action = act, resource = res,
                 result = (if ok then Allowed else Denied),
                 reason_at =
                   (if ok
                    then ''Role '' @ dquote @ roleName (role s) @ dquote @ '' has '' @ dquote
                         @ act @ dquote @ '' verb''
                    else ''Role '' @ dquote @ roleName (role s) @ dquote @ '' lacks '' @ dquote
                         @ act @ dquote @ '' verb'')\<rparr>
                # attempts s)\<rparr>)"

section \<open>Control plane journey (simulations/ControlPlaneJourney.tsx)\<close>

definition STEPS :: "string list" where
  "STEPS = [''kubectl'', ''apiserver'', ''etcd'', ''scheduler'', ''kubelet'', ''running'']"

definition nSteps :: int where
  "nSteps = int (length STEPS)"

text \<open>
  The closures handed to \<^verbatim>\<open>setTimeout\<close>: the callback of \<^verbatim>\<open>advanceTo\<close> with its
  \<^verbatim>\<open>nextIndex\<close>, and the two points where the \<^verbatim>\<open>runAll\<close> coroutine awaits
  \<^verbatim>\<open>sleep\<close>, each with the loop variable it resumes with.
\<close>

datatype CpjCb = AdvanceDone int | AfterTraverse int | AfterPause int

record cpj =
  activeIndex :: int
  traversingIndex :: "int option"
  isRunningAll :: bool
  runAllRef :: bool
  timeoutIds_cp :: "nat list"
  isMounted_cp :: bool
  loop_cp :: "CpjCb eventLoop"

definition cpjInit :: cpj where
  "cpjInit =
     \<lparr>activeIndex = 0, traversingIndex = None, isRunningAll = False, runAllRef = False,
      timeoutIds_cp = [], isMounted_cp = True, loop_cp = emptyLoop\<rparr>"

definition isFinished :: "cpj \<Rightarrow> bool" where
  "isFinished s = (activeIndex s \<ge> nSteps - 1)"

definition sleep :: "nat \<Rightarrow> CpjCb \<Rightarrow> cpj \<Rightarrow> cpj" where
  "sleep ms k s =
     (let (timeoutId, l) = setTimeout k ms (loop_cp s)
      in s\<lparr>loop_cp := l, timeoutIds_cp := timeoutIds_cp s @ [timeoutId]\<rparr>)"

definition advanceTo :: "int \<Rightarrow> cpj \<Rightarrow> cpj" where
  "advanceTo nextIndex s =
     (if nextIndex \<le> activeIndex s \<or> nextIndex \<ge> nSteps then s
      else sleep 480 (AdvanceDone nextIndex) (s\<lparr>traversingIndex := Some (nextIndex - 1)\<rparr>))"

definition handleNext :: "cpj \<Rightarrow> cpj" where
  "handleNext s = (if \<not> isFinished s then advanceTo (activeIndex s + 1) s else s)"

definition handleReset :: "cpj \<Rightarrow> cpj" where
  "handleReset s =
     s\<lparr>runAllRef := False, isRunningAll := False, traversingIndex := None, activeIndex := 0,
       loop_cp := fold clearTimeout (timeoutIds_cp s) (loop_cp s), timeoutIds_cp := []\<rparr>"

definition unmountCpj :: "cpj \<Rightarrow> cpj" where
  "unmountCpj s =
     s\<lparr>isMounted_cp := False,
       loop_cp := fold clearTimeout (timeoutIds_cp s) (loop_cp s), timeoutIds_cp := [],
       runAllRef := False\<rparr>"

definition finishRunAll :: "cpj \<Rightarrow> cpj" where
  "finishRunAll s = s\<lparr>runAllRef := False, isRunningAll := False\<rparr>"

text \<open>The head of the \<^verbatim>\<open>while\<close> loop of \<^verbatim>\<open>runAll\<close>, up to its first await.\<close>

definition runAllLoop :: "int \<Rightarrow> cpj \<Rightarrow> cpj" where
  "runAllLoop current s =
     (if current < nSteps - 1 \<and> runAllRef s
      then sleep 480 (AfterTraverse current) (s\<lparr>traversingIndex := Some current\<rparr>)
      else finishRunAll s)"

definition runAll :: "cpj \<Rightarrow> cpj" where
  "runAll s =
     (if isRunningAll s then s
      else runAllLoop (activeIndex s) (s\<lparr>runAllRef := True, isRunningAll := True\<rparr>))"

fun fireCpj :: "CpjCb \<Rightarrow> cpj \<Rightarrow> cpj" where
  "fireCpj (AdvanceDone nextIndex) s =
     (if \<not> isMounted_cp s then s
      else s\<lparr>traversingIndex := None, activeIndex := nextIndex\<rparr>)"
| "fireCpj (AfterTraverse current) s =
     (if \<not> runAllRef s \<or> \<not> isMounted_cp s then finishRunAll s
      else sleep 1000 (AfterPause (current + 1))
             (s\<lparr>traversingIndex := None, activeIndex := current + 1\<rparr>))"
| "fireCpj (AfterPause current) s = runAllLoop current s"

text \<open>The click handler of pipeline node \<open>i\<close> (\<open>i\<close> is an index of \<^verbatim>\<open>STEPS\<close>).\<close>

definition nodeClick :: "int \<Rightarrow> cpj \<Rightarrow> cpj" where
  "nodeClick i s =
     (if i \<le> activeIndex s
      then s\<lparr>runAllRef := False, isRunningAll := False, traversingIndex := None,
             activeIndex := i\<rparr>
      else s)"

definition stepCpj :: "cpj \<Rightarrow> cpj" where
  "stepCpj s =
     (case popTimer (loop_cp s) of
        None \<Rightarrow> s
      | Some (cb, l) \<Rightarrow> fireCpj cb (s\<lparr>loop_cp := l\<rparr>))"

fun runCpj :: "nat \<Rightarrow> cpj \<Rightarrow> cpj" where
  "runCpj 0 s = s"
| "runCpj (Suc n) s = runCpj n (stepCpj s)"

inductive reachableCpj :: "cpj \<Rightarrow> bool" where
  rc_init: "reachableCpj cpjInit"
| rc_advance: "reachableCpj s \<Longrightarrow> reachableCpj (advanceTo n s)"
| rc_next: "reachableCpj s \<Longrightarrow> reachableCpj (handleNext s)"
| rc_reset: "reachableCpj s \<Longrightarrow> reachableCpj (handleReset s)"
| rc_runAll: "reachableCpj s \<Longrightarrow> reachableCpj (runAll s)"
| rc_click: "reachableCpj s \<Longrightarrow> 0 \<le> i \<Longrightarrow> i < nSteps \<Longrightarrow> reachableCpj (nodeClick i s)"
| rc_step: "reachableCpj s \<Longrightarrow> reachableCpj (stepCpj s)"
| rc_idle: "reachableCpj s \<Longrightarrow> reachableCpj (s\<lparr>loop_cp := idle d (loop_cp s)\<rparr>)"
| rc_unmount: "reachableCpj s \<Longrightarrow> reachableCpj (unmountCpj s)"



section \<open>Cluster anatomy explorer: the request trace\<close>

definition TRACE_STEPS :: "(string \<times> nat) list" where
  "TRACE_STEPS =
     [(''kubectl'', 1800), (''api-server'', 2200), (''etcd'', 1600),
      (''controller-manager'', 2000), (''scheduler'', 2000), (''kubelet-1'', 2400),
      (''pod-1'', 2000)]"

datatype TraceCb = SetStep int | FinishTrace

record anatomy =
  selectedId :: "string option"
  traceRunning :: bool
  traceStepIndex :: int
  traceTimeoutsRef :: "nat list"
  loop_ca :: "TraceCb eventLoop"

definition anatomyInit :: anatomy where
  "anatomyInit =
     \<lparr>selectedId = None, traceRunning = False, traceStepIndex = - 1, traceTimeoutsRef = [],
      loop_ca = emptyLoop\<rparr>"

definition pushTrace :: "TraceCb \<Rightarrow> nat \<Rightarrow> anatomy \<Rightarrow> anatomy" where
  "pushTrace cb delay s =
     (let (t, l) = setTimeout cb delay (loop_ca s)
      in s\<lparr>loop_ca := l, traceTimeoutsRef := traceTimeoutsRef s @ [t]\<rparr>)"

definition stopTrace :: "anatomy \<Rightarrow> anatomy" where
  "stopTrace s =
     s\<lparr>loop_ca := fold clearTimeout (traceTimeoutsRef s) (loop_ca s), traceTimeoutsRef := [],
       traceRunning := False, traceStepIndex := - 1\<rparr>"

text \<open>The body of \<^verbatim>\<open>TRACE_STEPS.forEach((step, i) => ...)\<close>, threading \<^verbatim>\<open>elapsed\<close>.\<close>

definition traceStepBody :: "nat \<Rightarrow> nat \<times> anatomy \<Rightarrow> nat \<times> anatomy" where
  "traceStepBody i acc =
     (if i = 0 then acc
      else
        let elapsed = fst acc + snd (TRACE_STEPS ! (i - 1))
        in (elapsed, pushTrace (SetStep (int i)) elapsed (snd acc)))"

definition startTrace :: "anatomy \<Rightarrow> anatomy" where
  "startTrace s =
     (if traceRunning s then stopTrace s
      else
        let s1 = s\<lparr>selectedId := None, traceRunning := True, traceStepIndex := 0\<rparr>;
            s2 = snd (fold traceStepBody [0..<length TRACE_STEPS] (0, s1));
            totalDuration = fold (\<lambda>st acc. acc + snd st) TRACE_STEPS 0
        in pushTrace FinishTrace totalDuration s2)"








section \<open>Rollout simulator (simulations/RolloutSimulator.tsx)\<close>

datatype PodStatus = Running | Creating | Terminating
datatype PodVersion = V1 | V2

record Pod =
  id_pod :: string
  version :: PodVersion
  status :: PodStatus
  name_pod :: string

datatype LogType = Info | Success | Warn | Error

text \<open>
  A log entry with the clock at which it was added; its React key is left out.
  \<^verbatim>\<open>Date.now()\<close> is the clock of the timer queue, and a state updater runs once, at the
  point where the callback passes it to the setter.
\<close>

record LogEntry =
  time_le :: nat
  message :: string
  type_le :: LogType

datatype SimulationPhase = Idle | Rolling | Complete | RollingBack | RolledBack

text \<open>
  What the simulator takes from the runtime: the results of \<^verbatim>\<open>randomSuffix()\<close>, call by
  call, and the whole milliseconds \<^verbatim>\<open>setTimeout\<close> makes of \<^verbatim>\<open>STEP_DURATION * 0.7\<close>
  (980 exactly, 979 where the double product is truncated).
\<close>

record jsEnv =
  random :: "nat \<Rightarrow> string"
  delay07 :: nat

datatype RolloutCb =
    PhaseA nat
  | PhaseB nat string string
  | PhaseC nat
  | PhaseD nat
  | Finish
  | RbPhaseA nat
  | RbPhaseB nat string string
  | RbPhaseC nat
  | RbPhaseD nat
  | RbFinish

record rollout =
  pods :: "Pod list"
  phase :: SimulationPhase
  progress :: nat
  log_ro :: "LogEntry list"
  timeoutsRef :: "nat list"
  randomCalls :: nat
  loop_ro :: "RolloutCb eventLoop"

definition STEP_DURATION :: nat where
  "STEP_DURATION = 1400"

definition totalPods :: nat where
  "totalPods = 4"

definition emDash :: string where
  "emDash = [CHR 0xE2, CHR 0x80, CHR 0x94]"

definition buildInitialPods :: "jsEnv \<Rightarrow> nat \<Rightarrow> Pod list" where
  "buildInitialPods env k =
     map (\<lambda>i. \<lparr>id_pod = ''v1-'' @ showNat i, version = V1, status = Running,
               name_pod = ''my-app-v1-'' @ random env (k + i - 1)\<rparr>)
       [1, 2, 3, 4]"

definition rolloutInit :: "jsEnv \<Rightarrow> rollout" where
  "rolloutInit env =
     \<lparr>pods = buildInitialPods env 0, phase = Idle, progress = 0, log_ro = [],
      timeoutsRef = [], randomCalls = 4, loop_ro = emptyLoop\<rparr>"

definition addLog :: "string \<Rightarrow> LogType \<Rightarrow> rollout \<Rightarrow> rollout" where
  "addLog msg ty s =
     s\<lparr>log_ro := log_ro s @ [\<lparr>time_le = now (loop_ro s), message = msg, type_le = ty\<rparr>]\<rparr>"

definition scheduleTimeout :: "RolloutCb \<Rightarrow> nat \<Rightarrow> rollout \<Rightarrow> rollout" where
  "scheduleTimeout fn delay s =
     (let (i, l) = setTimeout fn delay (loop_ro s)
      in s\<lparr>loop_ro := l, timeoutsRef := timeoutsRef s @ [i]\<rparr>)"

definition clearAllTimeouts :: "rollout \<Rightarrow> rollout" where
  "clearAllTimeouts s =
     s\<lparr>loop_ro := fold clearTimeout (timeoutsRef s) (loop_ro s), timeoutsRef := []\<rparr>"

fun findIndex :: "('a \<Rightarrow> bool) \<Rightarrow> 'a list \<Rightarrow> nat option" where
  "findIndex P [] = None"
| "findIndex P (x # xs) = (if P x then Some 0 else map_option Suc (findIndex P xs))"

text \<open>\<^verbatim>\<open>Math.round((a / b) * 100)\<close> for naturals \<open>a\<close> and \<open>b > 0\<close>.\<close>

definition roundPercent :: "nat \<Rightarrow> nat \<Rightarrow> nat" where
  "roundPercent a b = (200 * a + b) div (2 * b)"

definition startRollout :: "jsEnv \<Rightarrow> rollout \<Rightarrow> rollout" where
  "startRollout env s =
     (let s1 = clearAllTimeouts s;
          s2 = s1\<lparr>phase := Rolling, progress := 0, log_ro := [],
                  pods := buildInitialPods env (randomCalls s1),
                  randomCalls := randomCalls s1 + 4\<rparr>;
          s3 = addLog (''Rollout started '' @ emDash @ '' strategy: RollingUpdate'') Info s2;
          s4 = addLog ''maxSurge: 1 | maxUnavailable: 0'' Info s3
      in fold (\<lambda>i. scheduleTimeout (PhaseA i) (i * 3080)) [0..<totalPods] s4)"

definition startRollback :: "jsEnv \<Rightarrow> rollout \<Rightarrow> rollout" where
  "startRollback env s =
     (let s1 = clearAllTimeouts s;
          s2 = s1\<lparr>phase := RollingBack, progress := 100, log_ro := []\<rparr>;
          s3 = addLog (''Rollback initiated '' @ emDash @ '' reverting to v1'') Warn s2;
          s4 = addLog ''maxSurge: 1 | maxUnavailable: 0'' Info s3
      in fold (\<lambda>i. scheduleTimeout (RbPhaseA i) (i * 3080)) [0..<totalPods] s4)"

definition reset :: "jsEnv \<Rightarrow> rollout \<Rightarrow> rollout" where
  "reset env s =
     (let s1 = clearAllTimeouts s
      in s1\<lparr>phase := Idle, progress := 0, log_ro := [],
            pods := buildInitialPods env (randomCalls s1),
            randomCalls := randomCalls s1 + 4\<rparr>)"

text \<open>Marking the first pod of a version and status, and removing it, as the updaters do.\<close>

definition markTerminating :: "PodVersion \<Rightarrow> rollout \<Rightarrow> rollout" where
  "markTerminating v s =
     (case findIndex (\<lambda>p. version p = v \<and> status p = Running) (pods s) of
        None \<Rightarrow> s
      | Some i \<Rightarrow>
          let terminatingPod = pods s ! i
          in (addLog (''Terminating pod '' @ name_pod terminatingPod) Error s)
               \<lparr>pods := (pods s)[i := terminatingPod\<lparr>status := Terminating\<rparr>]\<rparr>)"

definition removeTerminated :: "PodVersion \<Rightarrow> rollout \<Rightarrow> rollout" where
  "removeTerminated v s =
     (case findIndex (\<lambda>p. version p = v \<and> status p = Terminating) (pods s) of
        None \<Rightarrow> s
      | Some i \<Rightarrow>
          let removed = pods s ! i
          in (addLog (''Pod '' @ name_pod removed @ '' deleted'') Info s)
               \<lparr>pods := take i (pods s) @ drop (Suc i) (pods s)\<rparr>)"

definition markReady :: "string \<Rightarrow> string \<Rightarrow> rollout \<Rightarrow> rollout" where
  "markReady newPodName newPodId s =
     (addLog (''Pod '' @ newPodName @ '' is Ready'') Success s)
       \<lparr>pods := map (\<lambda>p. if id_pod p = newPodId then p\<lparr>status := Running\<rparr> else p) (pods s)\<rparr>"

fun fireRollout :: "jsEnv \<Rightarrow> RolloutCb \<Rightarrow> rollout \<Rightarrow> rollout" where
  "fireRollout env (PhaseA podIndex) s =
     (let newPodName = ''my-app-v2-'' @ random env (randomCalls s);
          newPodId = ''v2-'' @ showNat (podIndex + 1) @ ''-'' @ showNat (now (loop_ro s));
          s1 = addLog (''Creating pod '' @ newPodName @ ''...'') Warn
                 (s\<lparr>randomCalls := Suc (randomCalls s)\<rparr>);
          s2 = s1\<lparr>pods := pods s1 @ [\<lparr>id_pod = newPodId, version = V2, status = Creating,
                                      name_pod = newPodName\<rparr>]\<rparr>
      in scheduleTimeout (PhaseB podIndex newPodName newPodId) STEP_DURATION s2)"
| "fireRollout env (PhaseB podIndex newPodName newPodId) s =
     scheduleTimeout (PhaseC podIndex) (STEP_DURATION div 2) (markReady newPodName newPodId s)"
| "fireRollout env (PhaseC podIndex) s =
     scheduleTimeout (PhaseD podIndex) (delay07 env) (markTerminating V1 s)"
| "fireRollout env (PhaseD podIndex) s =
     (let s1 = removeTerminated V1 s;
          completedCount = podIndex + 1;
          s2 = s1\<lparr>progress := roundPercent completedCount totalPods\<rparr>
      in if completedCount = totalPods then scheduleTimeout Finish 400 s2 else s2)"
| "fireRollout env Finish s =
     addLog (''Rollout complete '' @ emDash @ '' all pods running v2'') Success
       (s\<lparr>phase := Complete\<rparr>)"
| "fireRollout env (RbPhaseA podIndex) s =
     (let newPodName = ''my-app-v1-'' @ random env (randomCalls s);
          newPodId = ''v1-rb-'' @ showNat (podIndex + 1) @ ''-'' @ showNat (now (loop_ro s));
          s1 = addLog (''Creating pod '' @ newPodName @ ''...'') Warn
                 (s\<lparr>randomCalls := Suc (randomCalls s)\<rparr>);
          s2 = s1\<lparr>pods := pods s1 @ [\<lparr>id_pod = newPodId, version = V1, status = Creating,
                                      name_pod = newPodName\<rparr>]\<rparr>
      in scheduleTimeout (RbPhaseB podIndex newPodName newPodId) STEP_DURATION s2)"
| "fireRollout env (RbPhaseB podIndex newPodName newPodId) s =
     scheduleTimeout (RbPhaseC podIndex) (STEP_DURATION div 2) (markReady newPodName newPodId s)"
| "fireRollout env (RbPhaseC podIndex) s =
     scheduleTimeout (RbPhaseD podIndex) (delay07 env) (markTerminating V2 s)"
| "fireRollout env (RbPhaseD podIndex) s =
     (let s1 = removeTerminated V2 s;
          completedCount = podIndex + 1;
          s2 = s1\<lparr>progress := roundPercent (totalPods - completedCount) totalPods\<rparr>
      in if completedCount = totalPods then scheduleTimeout RbFinish 400 s2 else s2)"
| "fireRollout env RbFinish s =
     addLog (''Rollback complete '' @ emDash @ '' all pods running v1'') Success
       (s\<lparr>phase := RolledBack\<rparr>)"

definition isRolling :: "rollout \<Rightarrow> bool" where
  "isRolling s = (phase s = Rolling \<or> phase s = RollingBack)"

definition canRollback :: "rollout \<Rightarrow> bool" where
  "canRollback s = (phase s = Complete)"

definition canDeploy :: "rollout \<Rightarrow> bool" where
  "canDeploy s = (phase s = Idle \<or> phase s = RolledBack)"

text \<open>
  The buttons: \<^verbatim>\<open>onClick={startRollout} disabled={!canDeploy || isRolling}\<close>,
  \<^verbatim>\<open>onClick={startRollback} disabled={!canRollback || isRolling}\<close> and
  \<^verbatim>\<open>onClick={reset} disabled={isRolling}\<close>.
\<close>

definition clickDeploy :: "jsEnv \<Rightarrow> rollout \<Rightarrow> rollout" where
  "clickDeploy env s = (if \<not> canDeploy s \<or> isRolling s then s else startRollout env s)"

definition clickRollback :: "jsEnv \<Rightarrow> rollout \<Rightarrow> rollout" where
  "clickRollback env s = (if \<not> canRollback s \<or> isRolling s then s else startRollback env s)"

definition clickReset :: "jsEnv \<Rightarrow> rollout \<Rightarrow> rollout" where
  "clickReset env s = (if isRolling s then s else reset env s)"

definition unmountRollout :: "rollout \<Rightarrow> rollout" where
  "unmountRollout s = s\<lparr>loop_ro := fold clearTimeout (timeoutsRef s) (loop_ro s)\<rparr>"

definition stepRollout :: "jsEnv \<Rightarrow> rollout \<Rightarrow> rollout" where
  "stepRollout env s =
     (case popTimer (loop_ro s) of
        None \<Rightarrow> s
      | Some (cb, l) \<Rightarrow> fireRollout env cb (s\<lparr>loop_ro := l\<rparr>))"

fun runRollout :: "jsEnv \<Rightarrow> nat \<Rightarrow> rollout \<Rightarrow> rollout" where
  "runRollout env 0 s = s"
| "runRollout env (Suc n) s = runRollout env n (stepRollout env s)"

inductive reachableRollout :: "jsEnv \<Rightarrow> rollout \<Rightarrow> bool" for env :: jsEnv where
  rr_init: "reachableRollout env (rolloutInit env)"
| rr_start: "reachableRollout env s \<Longrightarrow> reachableRollout env (startRollout env s)"
| rr_rollback: "reachableRollout env s \<Longrightarrow> reachableRollout env (startRollback env s)"
| rr_reset: "reachableRollout env s \<Longrightarrow> reachableRollout env (reset env s)"
| rr_step: "reachableRollout env s \<Longrightarrow> reachableRollout env (stepRollout env s)"
| rr_idle: "reachableRollout env s \<Longrightarrow> reachableRollout env (s\<lparr>loop_ro := idle d (loop_ro s)\<rparr>)"
| rr_unmount: "reachableRollout env s \<Longrightarrow> reachableRollout env (unmountRollout s)"

text \<open>The events of the log: a pod being created, a pod being terminated.\<close>

datatype PodEvent = Create | Terminate

definition eventOf :: "LogEntry \<Rightarrow> PodEvent option" where
  "eventOf e =
     (if take 13 (message e) = ''Creating pod '' then Some Create
      else if take 16 (message e) = ''Terminating pod '' then Some Terminate
      else None)"

definition podEvents :: "LogEntry list \<Rightarrow> PodEvent list" where
  "podEvents l = List.map_filter eventOf l"

text \<open>What a run is observed by: the pod events of the log in order, the versions and the
  statuses of the pod list, the phase, the progress and the number of pending timers.\<close>

definition rolloutOutcome ::
  "rollout \<Rightarrow> PodEvent list \<times> PodVersion list \<times> PodStatus list \<times> SimulationPhase \<times> nat \<times> nat" where
  "rolloutOutcome s =
     (podEvents (log_ro s), map version (pods s), map status (pods s), phase s, progress s,
      length (pending (loop_ro s)))"

section \<open>Service routing simulator (simulations/ServiceRoutingSimulator.tsx)\<close>

datatype ServiceType = ClusterIP | NodePort | LoadBalancer

fun cfgLayers :: "ServiceType \<Rightarrow> string list" where
  "cfgLayers ClusterIP = [''service'', ''pods'']"
| "cfgLayers NodePort = [''node'', ''service'', ''pods'']"
| "cfgLayers LoadBalancer = [''internet'', ''loadbalancer'', ''node'', ''service'', ''pods'']"

fun cfgPath :: "ServiceType \<Rightarrow> string list" where
  "cfgPath ClusterIP = [''service'', ''pod-a'', ''pod-b'', ''pod-c'']"
| "cfgPath NodePort = [''node'', ''service'', ''pod-a'', ''pod-b'', ''pod-c'']"
| "cfgPath LoadBalancer =
     [''internet'', ''loadbalancer'', ''node'', ''service'', ''pod-a'', ''pod-b'', ''pod-c'']"

definition POD_TARGETS :: "string list" where
  "POD_TARGETS = [''pod-a'', ''pod-b'', ''pod-c'']"

text \<open>
  The closures: the timer of \<^verbatim>\<open>handleTypeChange\<close> that lowers the abort flag, the three
  awaits of the \<^verbatim>\<open>handleSendRequest\<close> coroutine (with the rest of the layer path, the
  pod target and \<^verbatim>\<open>isPodsVisible\<close> of the render that started it), and the timer that
  stops the pulse.
\<close>

datatype SrCb =
    AllowNext
  | AfterShow "string list" string bool
  | AfterHide "string list" string bool
  | AfterPods string
  | StopPulse

record svcRouting =
  activeType :: ServiceType
  animating_sr :: bool
  activeLayerId :: "string option"
  targetedPod :: "string option"
  pulsingPod :: "string option"
  runCount :: nat
  abortRef :: bool
  timeoutIds_sr :: "nat list"
  isMounted_sr :: bool
  loop_sr :: "SrCb eventLoop"

definition svcInit :: svcRouting where
  "svcInit =
     \<lparr>activeType = ClusterIP, animating_sr = False, activeLayerId = None, targetedPod = None,
      pulsingPod = None, runCount = 0, abortRef = False, timeoutIds_sr = [],
      isMounted_sr = True, loop_sr = emptyLoop\<rparr>"

definition scheduleTimeout_sr :: "SrCb \<Rightarrow> nat \<Rightarrow> svcRouting \<Rightarrow> svcRouting" where
  "scheduleTimeout_sr cb delay s =
     (let (timeoutId, l) = setTimeout cb delay (loop_sr s)
      in s\<lparr>loop_sr := l, timeoutIds_sr := timeoutIds_sr s @ [timeoutId]\<rparr>)"

definition layerPath :: "ServiceType \<Rightarrow> string list" where
  "layerPath t =
     filter (\<lambda>i. i \<noteq> ''pod-a'' \<and> i \<noteq> ''pod-b'' \<and> i \<noteq> ''pod-c'') (cfgPath t)"

definition isPodsVisible :: "ServiceType \<Rightarrow> bool" where
  "isPodsVisible t = (''pods'' \<in> set (cfgLayers t))"

definition handleTypeChange :: "ServiceType \<Rightarrow> svcRouting \<Rightarrow> svcRouting" where
  "handleTypeChange t s =
     scheduleTimeout_sr AllowNext 50
       (s\<lparr>abortRef := True, animating_sr := False, activeLayerId := None, targetedPod := None,
          pulsingPod := None, activeType := t\<rparr>)"

definition finishSend :: "svcRouting \<Rightarrow> svcRouting" where
  "finishSend s = (if \<not> abortRef s then s\<lparr>animating_sr := False\<rparr> else s)"

definition afterLoop :: "string \<Rightarrow> bool \<Rightarrow> svcRouting \<Rightarrow> svcRouting" where
  "afterLoop podTarget podsVisible s =
     (if \<not> abortRef s \<and> podsVisible
      then scheduleTimeout_sr (AfterPods podTarget) 300 (s\<lparr>activeLayerId := Some ''pods''\<rparr>)
      else finishSend s)"

text \<open>The head of \<^verbatim>\<open>for (const layerId of layerPath)\<close>, up to its first await.\<close>

definition enterLayer :: "string list \<Rightarrow> string \<Rightarrow> bool \<Rightarrow> svcRouting \<Rightarrow> svcRouting" where
  "enterLayer path podTarget podsVisible s =
     (case path of
        [] \<Rightarrow> afterLoop podTarget podsVisible s
      | layerId # rest \<Rightarrow>
          if abortRef s then afterLoop podTarget podsVisible s
          else scheduleTimeout_sr (AfterShow rest podTarget podsVisible) 500
                 (s\<lparr>activeLayerId := Some layerId\<rparr>))"

definition handleSendRequest :: "svcRouting \<Rightarrow> svcRouting" where
  "handleSendRequest s =
     (if animating_sr s then s
      else
        let podTarget = POD_TARGETS ! (runCount s mod 3);
            s1 = s\<lparr>abortRef := False, animating_sr := True, targetedPod := None,
                   pulsingPod := None, runCount := runCount s + 1\<rparr>
        in enterLayer (layerPath (activeType s)) podTarget (isPodsVisible (activeType s)) s1)"

fun fireSvc :: "SrCb \<Rightarrow> svcRouting \<Rightarrow> svcRouting" where
  "fireSvc AllowNext s = (if \<not> isMounted_sr s then s else s\<lparr>abortRef := False\<rparr>)"
| "fireSvc (AfterShow rest podTarget podsVisible) s =
     (if abortRef s then afterLoop podTarget podsVisible s
      else scheduleTimeout_sr (AfterHide rest podTarget podsVisible) 120
             (s\<lparr>activeLayerId := None\<rparr>))"
| "fireSvc (AfterHide rest podTarget podsVisible) s = enterLayer rest podTarget podsVisible s"
| "fireSvc (AfterPods podTarget) s =
     finishSend
       (if \<not> abortRef s
        then scheduleTimeout_sr StopPulse 2000
               (s\<lparr>activeLayerId := None, targetedPod := Some podTarget,
                  pulsingPod := Some podTarget\<rparr>)
        else s)"
| "fireSvc StopPulse s =
     (if \<not> isMounted_sr s then s
      else if \<not> abortRef s then s\<lparr>pulsingPod := None\<rparr> else s)"

definition unmountSvc :: "svcRouting \<Rightarrow> svcRouting" where
  "unmountSvc s =
     s\<lparr>isMounted_sr := False,
       loop_sr := fold clearTimeout (timeoutIds_sr s) (loop_sr s), timeoutIds_sr := [],
       abortRef := True\<rparr>"

text \<open>Time passing on the mounted component with no timer firing.\<close>

definition waitSvc :: "nat \<Rightarrow> svcRouting \<Rightarrow> svcRouting" where
  "waitSvc d s = s\<lparr>loop_sr := idle d (loop_sr s)\<rparr>"

definition stepSvc :: "svcRouting \<Rightarrow> svcRouting" where
  "stepSvc s =
     (case popTimer (loop_sr s) of
        None \<Rightarrow> s
      | Some (cb, l) \<Rightarrow> fireSvc cb (s\<lparr>loop_sr := l\<rparr>))"

fun runSvc :: "nat \<Rightarrow> svcRouting \<Rightarrow> svcRouting" where
  "runSvc 0 s = s"
| "runSvc (Suc n) s = runSvc n (stepSvc s)"

chapter \<open>Properties\<close>

section \<open>The progress store\<close>


lemma count_list_insort:
  "count_list (insort x xs) y = count_list xs y + (if x = y then 1 else 0)"
  by (induction xs) auto

lemma count_list_sort: "count_list (sort xs) y = count_list xs y"
  by (induction xs) (auto simp: count_list_insort)

lemma count_list_snoc: "count_list (xs @ [x]) y = count_list xs y + (if x = y then 1 else 0)"
  by (induction xs) auto

lemma markExerciseComplete_idem:
  "markExerciseComplete i (markExerciseComplete i s) = markExerciseComplete i s"
  by (simp add: markExerciseComplete_def Let_def)

lemma markExerciseComplete_count:
  assumes "count_list (completedExercises s) i \<le> 1"
  shows "count_list (completedExercises (markExerciseComplete i s)) i = 1"
proof (cases "i \<in> set (completedExercises s)")
  case True
  then have "count_list (completedExercises s) i \<noteq> 0"
    by (simp add: count_list_0_iff)
  with assms have "count_list (completedExercises s) i = 1" by arith
  with True show ?thesis by (simp add: markExerciseComplete_def)
next
  case False
  then have "count_list (completedExercises s) i = 0"
    by (simp add: count_list_0_iff)
  with False show ?thesis
    by (simp add: markExerciseComplete_def count_list_sort count_list_snoc del: sort_key_simps)
qed

text \<open>
  Claim C8, as amended. Marking an exercise complete twice gives the state that marking it
  once gives, for every state. The list then holds the id exactly once provided the id
  occurred at most once before (the operation never removes a duplicate that a state
  already holds).
\<close>

theorem markExerciseComplete_idempotent:
  "markExerciseComplete i (markExerciseComplete i s) = markExerciseComplete i s
   \<and> (count_list (completedExercises s) i \<le> 1
        \<longrightarrow> count_list (completedExercises (markExerciseComplete i s)) i = 1)"
  using markExerciseComplete_idem markExerciseComplete_count by blast

text \<open>
  The amended claim at the initial state and section 3.
\<close>

theorem markExerciseComplete_idempotent_witness:
  "markExerciseComplete 3 (markExerciseComplete 3 initialProgress)
     = markExerciseComplete 3 initialProgress
   \<and> count_list (completedExercises initialProgress) 3 \<le> 1
   \<and> count_list (completedExercises (markExerciseComplete 3 initialProgress)) 3 = 1"
  using markExerciseComplete_idempotent [of 3 initialProgress]
  by (simp add: initialProgress_def)

text \<open>
  Claim C8 as stated fails on a state whose list already holds the id twice: after two
  calls the id still occurs twice.
\<close>

theorem markExerciseComplete_duplicate_counterexample:
  "count_list
     (completedExercises
        (markExerciseComplete 1
           (markExerciseComplete 1
              \<lparr>currentSection = 0, visitedSections = [0, 1, 2, 3, 4, 5, 6, 7, 8, 9],
               completedExercises = [1, 1]\<rparr>))) 1 = 2"
  by (simp add: markExerciseComplete_def)

lemma reachable_strict:
  "reachableProgress s \<Longrightarrow>
   sorted_wrt (<) (visitedSections s) \<and> sorted_wrt (<) (completedExercises s)"
proof (induction rule: reachableProgress.induct)
  case rp_init
  show ?case by (simp add: initialProgress_def)
next
  case (rp_setCurrent s i)
  then show ?case
    by (simp add: setCurrentSection_def markVisited_def Let_def strict_sorted_iff)
next
  case (rp_markVisited s i)
  then show ?case by (simp add: markVisited_def Let_def strict_sorted_iff)
next
  case (rp_markComplete s i)
  then show ?case by (simp add: markExerciseComplete_def Let_def strict_sorted_iff)
next
  case (rp_reset s)
  show ?case by (simp add: resetProgress_def)
qed

text \<open>
  Claim C10. In every state reached from the initial one by \<^verbatim>\<open>setCurrentSection\<close>,
  \<^verbatim>\<open>markVisited\<close>, \<^verbatim>\<open>markExerciseComplete\<close> and \<^verbatim>\<open>resetProgress\<close>, the lists of
  visited sections and of completed exercises are strictly increasing, hence free of
  duplicates.
\<close>

theorem reachable_lists_strictly_increasing:
  assumes "reachableProgress s"
  shows "sorted_wrt (<) (visitedSections s) \<and> distinct (visitedSections s)
         \<and> sorted_wrt (<) (completedExercises s) \<and> distinct (completedExercises s)"
  using reachable_strict [OF assms] by (simp add: strict_sorted_iff)

text \<open>
  A reached state: reset, then sections 7 and 3 completed in that order.
\<close>

theorem reachable_lists_strictly_increasing_witness:
  "reachableProgress (markExerciseComplete 3 (markExerciseComplete 7 (resetProgress initialProgress)))
   \<and> completedExercises (markExerciseComplete 3 (markExerciseComplete 7 (resetProgress initialProgress))) = [3, 7]
   \<and> sorted_wrt (<) (completedExercises (markExerciseComplete 3 (markExerciseComplete 7 (resetProgress initialProgress))))
   \<and> distinct (visitedSections (markExerciseComplete 3 (markExerciseComplete 7 (resetProgress initialProgress))))"
proof -
  have r: "reachableProgress (markExerciseComplete 3 (markExerciseComplete 7 (resetProgress initialProgress)))"
    by (intro reachableProgress.intros)
  have e: "completedExercises (markExerciseComplete 3 (markExerciseComplete 7 (resetProgress initialProgress))) = [3, 7]"
    by (simp add: markExerciseComplete_def resetProgress_def initialProgress_def)
  from reachable_lists_strictly_increasing [OF r] r e show ?thesis by simp
qed




section \<open>The NetworkPolicy decider\<close>

text \<open>
  Claim C3. With the policy inactive every pair is allowed; with the policy active and
  destination \<^verbatim>\<open>database\<close>, traffic is allowed exactly when the source is \<^verbatim>\<open>api\<close>; with
  the policy active and any other destination, traffic is allowed. The timer callback of
  \<^verbatim>\<open>sendTraffic\<close> records that decision as the last result.
\<close>

theorem network_policy_decider:
  "(\<not> active \<longrightarrow> \<not> isBlocked active src dst)
   \<and> (active \<and> dst = ''database'' \<longrightarrow> (\<not> isBlocked active src dst) = (src = ''api''))
   \<and> (active \<and> dst \<noteq> ''database'' \<longrightarrow> \<not> isBlocked active src dst)
   \<and> (isMounted_np s \<longrightarrow>
        lastResult (fireNet (Deliver src dst active) s)
          = Some \<lparr>allowed = \<not> isBlocked active src dst, from_res = src, to_res = dst\<rparr>)"
  by (simp add: isBlocked_def Let_def)

text \<open>
  The decider on four pairs, and the callback on a blocked one.
\<close>

theorem network_policy_decider_witness:
  "\<not> isBlocked False ''frontend'' ''database''
   \<and> isBlocked True ''frontend'' ''database''
   \<and> \<not> isBlocked True ''api'' ''database''
   \<and> \<not> isBlocked True ''frontend'' ''api''
   \<and> isMounted_np netpolInit
   \<and> lastResult (fireNet (Deliver ''frontend'' ''database'' True) netpolInit)
       = Some \<lparr>allowed = False, from_res = ''frontend'', to_res = ''database''\<rparr>"
  using network_policy_decider [where active = False and src = "''frontend''" and dst = "''database''" and s = netpolInit]
    network_policy_decider [where active = True and src = "''frontend''" and dst = "''database''" and s = netpolInit]
    network_policy_decider [where active = True and src = "''api''" and dst = "''database''" and s = netpolInit]
    network_policy_decider [where active = True and src = "''frontend''" and dst = "''api''" and s = netpolInit]
  by (simp add: netpolInit_def)

section \<open>The timer queue\<close>

lemma earliest_in: "earliest ts = Some t \<Longrightarrow> t \<in> set ts"
  by (induction ts arbitrary: t) (auto split: option.splits if_splits)

lemma earliest_None: "(earliest ts = None) = (ts = [])"
  by (cases ts) (auto split: option.splits)

lemma popTimer_None: "(popTimer l = None) = (pending l = [])"
  unfolding popTimer_def using earliest_None [of "pending l"] by (auto split: option.splits)

lemma popTimer_Some:
  assumes "popTimer l = Some (cb, l')"
  shows "\<exists>t\<in>set (pending l). cb = callback t"
    and "set (pending l') \<subseteq> set (pending l)"
    and "nextId l' = nextId l"
  using assms by (auto simp: popTimer_def split: option.splits dest: earliest_in)

lemma pending_clearTimeout: "set (pending (clearTimeout i l)) \<subseteq> set (pending l)"
  by (auto simp: clearTimeout_def)

lemma pending_fold_clear: "set (pending (fold clearTimeout ids l)) \<subseteq> set (pending l)"
proof (induction ids arbitrary: l)
  case Nil
  show ?case by simp
next
  case (Cons i ids)
  have "set (pending (fold clearTimeout ids (clearTimeout i l))) \<subseteq> set (pending (clearTimeout i l))"
    by (rule Cons.IH)
  also have "\<dots> \<subseteq> set (pending l)" by (rule pending_clearTimeout)
  finally show ?case by simp
qed

lemma pending_fold_clear_eq:
  "pending (fold clearTimeout ids l) = filter (\<lambda>t. tid t \<notin> set ids) (pending l)"
proof (induction ids arbitrary: l)
  case Nil
  show ?case by simp
next
  case (Cons i ids)
  show ?case
    by (simp add: Cons.IH) (simp add: clearTimeout_def conj_commute)
qed

lemma fold_clear_fields:
  "now (fold clearTimeout ids l) = now l" "nextId (fold clearTimeout ids l) = nextId l"
  by (induction ids arbitrary: l) (simp_all add: clearTimeout_def)

lemma pending_idle: "pending (idle d l) = pending l"
  by (simp add: idle_def split: option.splits)

lemma nextId_idle: "nextId (idle d l) = nextId l"
  by (simp add: idle_def split: option.splits)


section \<open>The scheduler and the other mock deciders\<close>

lemma sort_key_head:
  fixes f :: "'a \<Rightarrow> int"
  assumes "sort_key f xs = b # rest"
  shows "b \<in> set xs" "\<forall>c\<in>set xs. f b \<le> f c"
proof -
  have s: "set (b # rest) = set xs" using assms by (metis set_sort)
  then show "b \<in> set xs" by auto
  have "sorted (map f (b # rest))" using assms by (metis sorted_sort_key)
  then have "\<forall>c\<in>set (b # rest). f b \<le> f c" by auto
  with s show "\<forall>c\<in>set xs. f b \<le> f c" by simp
qed

lemma sort_key_neg_head_first:
  fixes g :: "'a \<Rightarrow> int"
  assumes "sort_key (\<lambda>y. - g y) xs = b # rest"
  shows "filter (\<lambda>y. g y = g b) xs = b # filter (\<lambda>y. g y = g b) rest"
proof -
  have "filter (\<lambda>y. - g y = - g b) (sort_key (\<lambda>y. - g y) xs) = filter (\<lambda>y. - g y = - g b) xs"
    by (rule sort_key_stable)
  with assms show ?thesis by simp
qed

lemma pickBest_None: "(pickBest cs = None) = (cs = [])"
proof
  assume "pickBest cs = None"
  then have "sort_key (\<lambda>c. - (availCpu c + availMem c)) cs = []"
    by (simp add: pickBest_def split: list.splits)
  then have "set cs = {}" by (metis set_sort set_empty)
  then show "cs = []" by simp
next
  assume "cs = []" then show "pickBest cs = None" by (simp add: pickBest_def)
qed

lemma pickBest_Some:
  assumes "pickBest cs = Some b"
  shows "b \<in> set cs"
    and "\<forall>c\<in>set cs. availCpu c + availMem c \<le> availCpu b + availMem b"
    and "\<exists>rest. filter (\<lambda>c. availCpu c + availMem c = availCpu b + availMem b) cs = b # rest"
proof -
  from assms obtain rest where r: "sort_key (\<lambda>c. - (availCpu c + availMem c)) cs = b # rest"
    by (auto simp: pickBest_def split: list.splits)
  from sort_key_head [OF r] show "b \<in> set cs"
    and "\<forall>c\<in>set cs. availCpu c + availMem c \<le> availCpu b + availMem b" by auto
  from sort_key_neg_head_first [where g = "\<lambda>c. availCpu c + availMem c", OF r]
  show "\<exists>rest. filter (\<lambda>c. availCpu c + availMem c = availCpu b + availMem b) cs = b # rest"
    by auto
qed

lemma getNodeFit_fields:
  "node (getNodeFit c m n) = n"
  "availCpu (getNodeFit c m n) = totalCpu n - usedCpu n"
  "availMem (getNodeFit c m n) = totalMemory n - usedMemory n"
  "cpuFit (getNodeFit c m n) = (c \<le> totalCpu n - usedCpu n)"
  "memFit (getNodeFit c m n) = (m \<le> totalMemory n - usedMemory n)"
  "hasTaint (getNodeFit c m n) = (case taints n of None \<Rightarrow> False | Some ts \<Rightarrow> ts \<noteq> [])"
  by (simp_all add: getNodeFit_def Let_def split: option.splits)

lemma getNodeFit_fits:
  "fits (getNodeFit c m n) =
     (c \<le> totalCpu n - usedCpu n \<and> m \<le> totalMemory n - usedMemory n
      \<and> \<not> hasTaint (getNodeFit c m n))"
  by (simp add: getNodeFit_def Let_def)

lemma candidates_set:
  "set (candidates ns c m) = {getNodeFit c m n | n. n \<in> set ns \<and> fits (getNodeFit c m n)}"
  by (auto simp: candidates_def)

lemma placement_not_pending: "placementOf b \<noteq> pendingPlacement"
  by (simp add: placementOf_def pendingPlacement_def)

lemma decide_pending: "(decide ns c m = pendingPlacement) = (candidates ns c m = [])"
  by (auto simp: decide_def Let_def pickBest_None placement_not_pending split: option.splits)

lemma decide_best:
  "pickBest (candidates ns c m) = Some b \<Longrightarrow> decide ns c m = placementOf b"
proof -
  assume b: "pickBest (candidates ns c m) = Some b"
  have "candidates ns c m \<noteq> []"
  proof
    assume "candidates ns c m = []"
    then have "pickBest (candidates ns c m) = None" by (simp add: pickBest_None)
    with b show False by simp
  qed
  with b show ?thesis by (simp add: decide_def Let_def)
qed

lemma candidates_empty:
  "(candidates ns c m = []) =
     (\<not> (\<exists>n\<in>set ns. c \<le> totalCpu n - usedCpu n \<and> m \<le> totalMemory n - usedMemory n
            \<and> \<not> hasTaint (getNodeFit c m n)))"
proof -
  have "(candidates ns c m = []) = (set (candidates ns c m) = {})" by simp
  also have "\<dots> = (\<not> (\<exists>n\<in>set ns. fits (getNodeFit c m n)))"
    unfolding candidates_set by auto
  finally show ?thesis by (simp add: getNodeFit_fits)
qed

subsection \<open>The scheduler component: one pending timer, holding the request\<close>

lemma clearRef_fields:
  "nextId (clearRef r l) = nextId l" "now (clearRef r l) = now l"
  "set (pending (clearRef r l)) \<subseteq> set (pending l)"
  by (auto simp: clearRef_def clearTimeout_def split: option.splits)

lemma clearRef_all:
  assumes "\<forall>t\<in>set (pending l). r = Some (tid t) \<and> tid t \<noteq> 0"
  shows "pending (clearRef r l) = []"
proof (cases "pending l")
  case Nil
  then show ?thesis by (simp add: clearRef_def clearTimeout_def split: option.splits)
next
  case (Cons t ts)
  with assms have r: "r = Some (tid t)" "tid t \<noteq> 0" by auto
  from assms r have "\<forall>u\<in>set (pending l). tid u = tid t" by auto
  then have "filter (\<lambda>u. tid u \<noteq> tid t) (pending l) = []" by (simp add: filter_empty_conv)
  with r show ?thesis by (simp add: clearRef_def clearTimeout_def)
qed

lemma schedulePod_mounted:
  assumes "schedInv s" "isMounted_sc s"
  shows "pending (loop_sc (schedulePod s))
           = [\<lparr>tid = nextId (loop_sc s), due = now (loop_sc s) + 1200,
               callback = Evaluate (cpuReq s) (memReq s)\<rparr>]"
    and "timeoutRef (schedulePod s) = Some (nextId (loop_sc s))"
    and "nextId (loop_sc (schedulePod s)) = Suc (nextId (loop_sc s))"
    and "isMounted_sc (schedulePod s)"
    and "cpuReq (schedulePod s) = cpuReq s" and "memReq (schedulePod s) = memReq s"
proof -
  from assms(1) have "pending (clearRef (timeoutRef s) (loop_sc s)) = []"
    by (intro clearRef_all) (simp add: schedInv_def)
  with assms(2) show "pending (loop_sc (schedulePod s))
           = [\<lparr>tid = nextId (loop_sc s), due = now (loop_sc s) + 1200,
               callback = Evaluate (cpuReq s) (memReq s)\<rparr>]"
    and "timeoutRef (schedulePod s) = Some (nextId (loop_sc s))"
    and "nextId (loop_sc (schedulePod s)) = Suc (nextId (loop_sc s))"
    and "isMounted_sc (schedulePod s)"
    and "cpuReq (schedulePod s) = cpuReq s" and "memReq (schedulePod s) = memReq s"
    by (simp_all add: schedulePod_def Let_def setTimeout_def clearRef_fields)
qed

lemma schedInv_schedulePod: "schedInv s \<Longrightarrow> schedInv (schedulePod s)"
proof (cases "isMounted_sc s")
  case True
  assume i: "schedInv s"
  from schedulePod_mounted [OF i True] i show ?thesis by (simp add: schedInv_def)
next
  case False
  assume "schedInv s"
  with False show ?thesis by (simp add: schedInv_def schedulePod_def Let_def)
qed

lemma schedInv_step: "schedInv s \<Longrightarrow> schedInv (stepSched s)"
proof -
  assume i: "schedInv s"
  show ?thesis
  proof (cases "popTimer (loop_sc s)")
    case None
    with i show ?thesis by (simp add: stepSched_def)
  next
    case (Some p)
    obtain cb l where p: "p = (cb, l)" by (cases p)
    with Some have ps: "popTimer (loop_sc s) = Some (cb, l)" by simp
    from popTimer_Some(2,3) [OF ps] i have "schedInv (s\<lparr>loop_sc := l\<rparr>)"
      by (auto simp: schedInv_def)
    then have "schedInv (fireSched cb (s\<lparr>loop_sc := l\<rparr>))"
      by (cases cb) (simp add: schedInv_def)
    with ps show ?thesis by (simp add: stepSched_def)
  qed
qed

lemma schedInv_reachable: "reachableSched s \<Longrightarrow> schedInv s"
proof (induction rule: reachableSched.induct)
  case rs_init
  show ?case by (simp add: schedInv_def schedInit_def emptyLoop_def)
next
  case (rs_schedule s)
  from rs_schedule.IH show ?case by (rule schedInv_schedulePod)
next
  case (rs_cpu s v)
  then show ?case by (simp add: schedInv_def setCpuReq_def)
next
  case (rs_mem s v)
  then show ?case by (simp add: schedInv_def setMemReq_def)
next
  case (rs_step s)
  from rs_step.IH show ?case by (rule schedInv_step)
next
  case (rs_idle s d)
  then show ?case by (simp add: schedInv_def pending_idle nextId_idle)
next
  case (rs_unmount s)
  then show ?case
    using clearRef_fields(3) [of "timeoutRef s" "loop_sc s"]
    by (auto simp: schedInv_def unmountSched_def clearRef_fields(1))
qed

lemma stepSched_single:
  assumes "pending (loop_sc s) = [\<lparr>tid = i, due = d, callback = cb\<rparr>]"
  shows "stepSched s = fireSched cb (s\<lparr>loop_sc := (loop_sc s)\<lparr>now := max (now (loop_sc s)) d, pending := []\<rparr>\<rparr>)"
  using assms by (simp add: stepSched_def popTimer_def)

lemma schedule_then_fire:
  assumes "reachableSched s" "isMounted_sc s"
  shows "scheduled (stepSched (schedulePod s)) = Some (decide nodes (cpuReq s) (memReq s))"
    and "\<not> scheduling (stepSched (schedulePod s))"
    and "scheduled (stepSched (setCpuReq v (schedulePod s))) = Some (decide nodes (cpuReq s) (memReq s))"
    and "scheduled (stepSched (setMemReq v (schedulePod s))) = Some (decide nodes (cpuReq s) (memReq s))"
proof -
  note i = schedInv_reachable [OF assms(1)]
  note P = schedulePod_mounted [OF i assms(2)]
  show "scheduled (stepSched (schedulePod s)) = Some (decide nodes (cpuReq s) (memReq s))"
    unfolding stepSched_single [OF P(1)] using P(4) by simp
  show "\<not> scheduling (stepSched (schedulePod s))"
    unfolding stepSched_single [OF P(1)] using P(4) by simp
  have c: "pending (loop_sc (setCpuReq v (schedulePod s)))
           = [\<lparr>tid = nextId (loop_sc s), due = now (loop_sc s) + 1200,
               callback = Evaluate (cpuReq s) (memReq s)\<rparr>]"
    using P(1) by (simp add: setCpuReq_def)
  show "scheduled (stepSched (setCpuReq v (schedulePod s))) = Some (decide nodes (cpuReq s) (memReq s))"
    unfolding stepSched_single [OF c] using P(4) by (simp add: setCpuReq_def)
  have m: "pending (loop_sc (setMemReq v (schedulePod s)))
           = [\<lparr>tid = nextId (loop_sc s), due = now (loop_sc s) + 1200,
               callback = Evaluate (cpuReq s) (memReq s)\<rparr>]"
    using P(1) by (simp add: setMemReq_def)
  show "scheduled (stepSched (setMemReq v (schedulePod s))) = Some (decide nodes (cpuReq s) (memReq s))"
    unfolding stepSched_single [OF m] using P(4) by (simp add: setMemReq_def)
qed

subsection \<open>The NetworkPolicy component: one pending delivery, holding the policy\<close>

lemma netInv_send: "netInv s \<Longrightarrow> netInv (sendTraffic src dst s)"
  by (auto simp: netInv_def sendTraffic_def Let_def setTimeout_def)

lemma length_le1_filter: "length xs \<le> 1 \<Longrightarrow> t \<in> set xs \<Longrightarrow> filter (\<lambda>u. tid u \<noteq> tid t) xs = []"
  by (cases xs) auto

lemma netInv_step: "netInv s \<Longrightarrow> netInv (stepNet s)"
proof -
  assume i: "netInv s"
  show ?thesis
  proof (cases "earliest (pending (loop_np s))")
    case None
    then show ?thesis using i by (simp add: stepNet_def popTimer_def)
  next
    case (Some t)
    from earliest_in [OF Some] i
    have "filter (\<lambda>u. tid u \<noteq> tid t) (pending (loop_np s)) = []"
      by (intro length_le1_filter) (simp_all add: netInv_def)
    with Some show ?thesis
      by (cases "callback t") (simp add: stepNet_def popTimer_def netInv_def Let_def)
  qed
qed

lemma netInv_reachable: "reachableNet s \<Longrightarrow> netInv s"
proof (induction rule: reachableNet.induct)
  case rn_init
  show ?case by (simp add: netInv_def netpolInit_def emptyLoop_def)
next
  case (rn_send s src dst)
  from rn_send.IH show ?case by (rule netInv_send)
next
  case (rn_toggle s)
  then show ?case by (simp add: netInv_def togglePolicy_def)
next
  case (rn_step s)
  from rn_step.IH show ?case by (rule netInv_step)
next
  case (rn_idle s d)
  then show ?case by (simp add: netInv_def pending_idle)
next
  case (rn_unmount s)
  let ?f = "filter (\<lambda>t. tid t \<notin> set (timeoutIds_np s)) (pending (loop_np s))"
  have "length ?f \<le> length (pending (loop_np s))" by (rule length_filter_le)
  also from rn_unmount.IH have "\<dots> \<le> 1" by (simp add: netInv_def)
  finally have l: "length ?f \<le> 1" .
  have "?f \<noteq> [] \<Longrightarrow> pending (loop_np s) \<noteq> []" by auto
  with rn_unmount.IH have a: "?f \<noteq> [] \<longrightarrow> animating s" by (auto simp: netInv_def)
  have p: "pending (loop_np (unmountNet s)) = ?f"
    by (simp add: unmountNet_def pending_fold_clear_eq)
  have an: "animating (unmountNet s) = animating s" by (simp add: unmountNet_def)
  from l a show ?case unfolding netInv_def p an by blast
qed

lemma send_then_fire:
  assumes "reachableNet s" "isMounted_np s" "\<not> animating s" "src \<noteq> dst"
  shows "lastResult (stepNet (sendTraffic src dst s))
           = Some \<lparr>allowed = \<not> isBlocked (policyActive s) src dst, from_res = src, to_res = dst\<rparr>"
    and "lastResult (stepNet (togglePolicy (sendTraffic src dst s)))
           = Some \<lparr>allowed = \<not> isBlocked (policyActive s) src dst, from_res = src, to_res = dst\<rparr>"
    and "\<not> animating (stepNet (sendTraffic src dst s))"
proof -
  from netInv_reachable [OF assms(1)] assms(3) have e: "pending (loop_np s) = []"
    by (auto simp: netInv_def)
  with assms show "lastResult (stepNet (sendTraffic src dst s))
           = Some \<lparr>allowed = \<not> isBlocked (policyActive s) src dst, from_res = src, to_res = dst\<rparr>"
    by (simp add: sendTraffic_def Let_def setTimeout_def stepNet_def popTimer_def)
  from e assms show "lastResult (stepNet (togglePolicy (sendTraffic src dst s)))
           = Some \<lparr>allowed = \<not> isBlocked (policyActive s) src dst, from_res = src, to_res = dst\<rparr>"
    by (simp add: sendTraffic_def Let_def setTimeout_def stepNet_def popTimer_def togglePolicy_def)
  from e assms show "\<not> animating (stepNet (sendTraffic src dst s))"
    by (simp add: sendTraffic_def Let_def setTimeout_def stepNet_def popTimer_def)
qed

subsection \<open>The recorded decisions\<close>

lemma tryAccess_head:
  "attempts (tryAccess act res a) \<noteq> []"
  "result (hd (attempts (tryAccess act res a)))
     = (if act \<in> set (RBAC_PERMISSIONS (role a)) then Allowed else Denied)"
  "reason_at (hd (attempts (tryAccess act res a)))
     = ''Role '' @ dquote @ roleName (role a) @ dquote
       @ (if act \<in> set (RBAC_PERMISSIONS (role a)) then '' has '' else '' lacks '')
       @ dquote @ act @ dquote @ '' verb''"
  "action (hd (attempts (tryAccess act res a))) = act"
  "resource (hd (attempts (tryAccess act res a))) = res"
  by (simp_all add: tryAccess_def Let_def)

lemma decide_best_explicit:
  assumes "pickBest (candidates ns c m) = Some b"
  shows "decide ns c m
           = \<lparr>nodeName = name_node (node b),
              reason = ''Best fit: '' @ showInt (totalCpu (node b) - usedCpu (node b))
                       @ '' vCPU and ''
                       @ showInt (totalMemory (node b) - usedMemory (node b))
                       @ '' Gi available.''\<rparr>"
proof -
  from pickBest_Some(1) [OF assms] obtain n where n: "b = getNodeFit c m n"
    unfolding candidates_set by auto
  from decide_best [OF assms] n show ?thesis
    by (simp add: placementOf_def getNodeFit_fields)
qed

lemma decide_nodes_pending: "(decide nodes c m = pendingPlacement) = (3 < c \<or> 5 < m)"
  unfolding decide_pending candidates_empty
  by (simp add: nodes_def getNodeFit_fields) arith

text \<open>
  Claim C4. For every node table and every CPU and memory request, the scheduler's outcome
  is the pending one exactly when no node has free CPU and free memory at least the request
  and is untainted, a node being tainted when its list of taints is present and not empty.
  A selected node is a node of the table without a taint that the request fits, and the
  outcome carries its name and its free CPU and memory; so a tainted node is never selected
  even when the request fits it, and a request above every node's free CPU or free memory
  is pending. In the component: from every reachable mounted state, \<^verbatim>\<open>schedulePod\<close>
  followed by its timer stores the outcome for the \<^verbatim>\<open>cpuReq\<close> and \<^verbatim>\<open>memReq\<close> of the state
  it was called in, on the component's table, and clears \<^verbatim>\<open>scheduling\<close>; that outcome is
  pending exactly when no node of the table is eligible for that request, which on this
  table is a request of more than 3 vCPU or more than 5 Gi.
\<close>

theorem scheduler_pending_iff_no_eligible_node:
  "(decide ns c m = pendingPlacement)
     = (\<not> (\<exists>n\<in>set ns. c \<le> totalCpu n - usedCpu n \<and> m \<le> totalMemory n - usedMemory n
              \<and> \<not> hasTaint (getNodeFit c m n)))
   \<and> hasTaint (getNodeFit c m k) = (case taints k of None \<Rightarrow> False | Some ts \<Rightarrow> ts \<noteq> [])
   \<and> (pickBest (candidates ns c m) = Some b \<longrightarrow>
         node b \<in> set ns \<and> \<not> hasTaint (getNodeFit c m (node b))
         \<and> c \<le> totalCpu (node b) - usedCpu (node b)
         \<and> m \<le> totalMemory (node b) - usedMemory (node b)
         \<and> decide ns c m = placementOf b
         \<and> decide ns c m
             = \<lparr>nodeName = name_node (node b),
                reason = ''Best fit: '' @ showInt (totalCpu (node b) - usedCpu (node b))
                         @ '' vCPU and ''
                         @ showInt (totalMemory (node b) - usedMemory (node b))
                         @ '' Gi available.''\<rparr>)
   \<and> (decide ns c m \<noteq> pendingPlacement \<longrightarrow>
         (\<exists>n\<in>set ns. c \<le> totalCpu n - usedCpu n \<and> m \<le> totalMemory n - usedMemory n
            \<and> \<not> hasTaint (getNodeFit c m n)
            \<and> decide ns c m
                = \<lparr>nodeName = name_node n,
                   reason = ''Best fit: '' @ showInt (totalCpu n - usedCpu n)
                            @ '' vCPU and '' @ showInt (totalMemory n - usedMemory n)
                            @ '' Gi available.''\<rparr>))
   \<and> ((\<forall>n\<in>set ns. totalCpu n - usedCpu n < c \<or> totalMemory n - usedMemory n < m)
         \<longrightarrow> decide ns c m = pendingPlacement)
   \<and> (isMounted_sc s \<longrightarrow> scheduled (fireSched (Evaluate c m) s) = Some (decide nodes c m))
   \<and> (reachableSched s \<and> isMounted_sc s \<longrightarrow>
         scheduled (stepSched (schedulePod s)) = Some (decide nodes (cpuReq s) (memReq s))
         \<and> \<not> scheduling (stepSched (schedulePod s))
         \<and> (scheduled (stepSched (schedulePod s)) = Some pendingPlacement)
             = (\<not> (\<exists>n\<in>set nodes. cpuReq s \<le> totalCpu n - usedCpu n
                      \<and> memReq s \<le> totalMemory n - usedMemory n
                      \<and> \<not> hasTaint (getNodeFit (cpuReq s) (memReq s) n)))
         \<and> (scheduled (stepSched (schedulePod s)) = Some pendingPlacement)
             = (3 < cpuReq s \<or> 5 < memReq s))"
proof (intro conjI impI)
  show "(decide ns c m = pendingPlacement)
     = (\<not> (\<exists>n\<in>set ns. c \<le> totalCpu n - usedCpu n \<and> m \<le> totalMemory n - usedMemory n
              \<and> \<not> hasTaint (getNodeFit c m n)))"
    by (simp only: decide_pending candidates_empty)
next
  show "hasTaint (getNodeFit c m k) = (case taints k of None \<Rightarrow> False | Some ts \<Rightarrow> ts \<noteq> [])"
    by (rule getNodeFit_fields(6))
next
  assume b: "pickBest (candidates ns c m) = Some b"
  from pickBest_Some(1) [OF b] obtain n where n: "n \<in> set ns" "b = getNodeFit c m n"
    "fits (getNodeFit c m n)"
    unfolding candidates_set by auto
  from n show "node b \<in> set ns" by (simp add: getNodeFit_fields)
  from n show "\<not> hasTaint (getNodeFit c m (node b))"
    by (simp add: getNodeFit_fields(1) getNodeFit_fits)
  from n show "c \<le> totalCpu (node b) - usedCpu (node b)"
    by (simp add: getNodeFit_fields(1) getNodeFit_fits)
  from n show "m \<le> totalMemory (node b) - usedMemory (node b)"
    by (simp add: getNodeFit_fields(1) getNodeFit_fits)
  from b show "decide ns c m = placementOf b" by (rule decide_best)
  from b show "decide ns c m
             = \<lparr>nodeName = name_node (node b),
                reason = ''Best fit: '' @ showInt (totalCpu (node b) - usedCpu (node b))
                         @ '' vCPU and ''
                         @ showInt (totalMemory (node b) - usedMemory (node b))
                         @ '' Gi available.''\<rparr>"
    by (rule decide_best_explicit)
next
  assume np: "decide ns c m \<noteq> pendingPlacement"
  then have "candidates ns c m \<noteq> []" by (simp add: decide_pending)
  then have "pickBest (candidates ns c m) \<noteq> None" by (simp add: pickBest_None)
  then obtain b where b: "pickBest (candidates ns c m) = Some b" by auto
  from pickBest_Some(1) [OF b] obtain n where n: "n \<in> set ns" "b = getNodeFit c m n"
    "fits (getNodeFit c m n)"
    unfolding candidates_set by auto
  from n(2) have nb: "node b = n" by (simp add: getNodeFit_fields)
  from n(3) have f: "c \<le> totalCpu n - usedCpu n \<and> m \<le> totalMemory n - usedMemory n
            \<and> \<not> hasTaint (getNodeFit c m n)" by (simp add: getNodeFit_fits)
  from decide_best_explicit [OF b] nb
  have "decide ns c m
                = \<lparr>nodeName = name_node n,
                   reason = ''Best fit: '' @ showInt (totalCpu n - usedCpu n)
                            @ '' vCPU and '' @ showInt (totalMemory n - usedMemory n)
                            @ '' Gi available.''\<rparr>" by simp
  with n(1) f show "\<exists>n\<in>set ns. c \<le> totalCpu n - usedCpu n \<and> m \<le> totalMemory n - usedMemory n
            \<and> \<not> hasTaint (getNodeFit c m n)
            \<and> decide ns c m
                = \<lparr>nodeName = name_node n,
                   reason = ''Best fit: '' @ showInt (totalCpu n - usedCpu n)
                            @ '' vCPU and '' @ showInt (totalMemory n - usedMemory n)
                            @ '' Gi available.''\<rparr>" by blast
next
  assume "\<forall>n\<in>set ns. totalCpu n - usedCpu n < c \<or> totalMemory n - usedMemory n < m"
  then have "\<not> (\<exists>n\<in>set ns. c \<le> totalCpu n - usedCpu n \<and> m \<le> totalMemory n - usedMemory n
              \<and> \<not> hasTaint (getNodeFit c m n))" by (meson leD)
  then show "decide ns c m = pendingPlacement" by (simp add: decide_pending candidates_empty)
next
  assume "isMounted_sc s"
  then show "scheduled (fireSched (Evaluate c m) s) = Some (decide nodes c m)" by simp
next
  assume a: "reachableSched s \<and> isMounted_sc s"
  then have r: "reachableSched s" and mo: "isMounted_sc s" by simp_all
  note F = schedule_then_fire [OF r mo]
  show e: "scheduled (stepSched (schedulePod s)) = Some (decide nodes (cpuReq s) (memReq s))"
    by (rule F(1))
  show "\<not> scheduling (stepSched (schedulePod s))" by (rule F(2))
  show "(scheduled (stepSched (schedulePod s)) = Some pendingPlacement)
             = (\<not> (\<exists>n\<in>set nodes. cpuReq s \<le> totalCpu n - usedCpu n
                      \<and> memReq s \<le> totalMemory n - usedMemory n
                      \<and> \<not> hasTaint (getNodeFit (cpuReq s) (memReq s) n)))"
    unfolding e by (simp only: option.inject decide_pending candidates_empty)
  show "(scheduled (stepSched (schedulePod s)) = Some pendingPlacement)
             = (3 < cpuReq s \<or> 5 < memReq s)"
    unfolding e by (simp only: option.inject decide_nodes_pending)
qed

text \<open>
  The tainted node alone with a request that fits it, two requests above every node's free
  capacity, a request that node-1 wins, and the component run from its initial state and
  from the state with 4 vCPU requested.
\<close>

theorem scheduler_pending_iff_no_eligible_node_witness:
  "decide [nodes ! 2] 1 1 = pendingPlacement
   \<and> hasTaint (getNodeFit 1 1 (nodes ! 2))
   \<and> 1 \<le> totalCpu (nodes ! 2) - usedCpu (nodes ! 2)
   \<and> decide nodes 4 1 = pendingPlacement
   \<and> decide nodes 1 6 = pendingPlacement
   \<and> pickBest (candidates nodes 1 2) = Some (getNodeFit 1 2 (nodes ! 0))
   \<and> decide nodes 1 2
       = \<lparr>nodeName = ''node-1'', reason = ''Best fit: 3 vCPU and 5 Gi available.''\<rparr>
   \<and> decide nodes 1 2 \<noteq> pendingPlacement
   \<and> isMounted_sc schedInit
   \<and> scheduled (fireSched (Evaluate 1 2) schedInit)
       = Some \<lparr>nodeName = ''node-1'', reason = ''Best fit: 3 vCPU and 5 Gi available.''\<rparr>
   \<and> reachableSched schedInit
   \<and> scheduled (stepSched (schedulePod schedInit))
       = Some \<lparr>nodeName = ''node-1'', reason = ''Best fit: 3 vCPU and 5 Gi available.''\<rparr>
   \<and> reachableSched (setCpuReq 4 schedInit) \<and> isMounted_sc (setCpuReq 4 schedInit)
   \<and> scheduled (stepSched (schedulePod (setCpuReq 4 schedInit))) = Some pendingPlacement"
proof -
  let ?P = "\<lparr>nodeName = ''node-1'', reason = ''Best fit: 3 vCPU and 5 Gi available.''\<rparr>"
  have p: "pickBest (candidates nodes 1 2) = Some (getNodeFit 1 2 (nodes ! 0))"
    by (simp add: candidates_def nodes_def getNodeFit_def pickBest_def)
  have a: "\<forall>n\<in>set nodes. totalCpu n - usedCpu n < 4 \<or> totalMemory n - usedMemory n < 1"
    by (simp add: nodes_def)
  have b: "\<forall>n\<in>set nodes. totalCpu n - usedCpu n < 1 \<or> totalMemory n - usedMemory n < 6"
    by (simp add: nodes_def)
  have t: "hasTaint (getNodeFit 1 1 (nodes ! 2))"
    by (simp add: nodes_def getNodeFit_def)
  have m: "isMounted_sc schedInit" by (simp add: schedInit_def)
  have r: "reachableSched schedInit" by (rule rs_init)
  have r4: "reachableSched (setCpuReq 4 schedInit)" by (intro reachableSched.intros)
  have m4: "isMounted_sc (setCpuReq 4 schedInit)" by (simp add: schedInit_def setCpuReq_def)
  have q: "cpuReq schedInit = 1" "memReq schedInit = 2" "cpuReq (setCpuReq 4 schedInit) = 4"
    by (simp_all add: schedInit_def setCpuReq_def)
  have ex: "\<lparr>nodeName = name_node (node (getNodeFit 1 2 (nodes ! 0))),
             reason = ''Best fit: ''
                      @ showInt (totalCpu (node (getNodeFit 1 2 (nodes ! 0)))
                                 - usedCpu (node (getNodeFit 1 2 (nodes ! 0))))
                      @ '' vCPU and ''
                      @ showInt (totalMemory (node (getNodeFit 1 2 (nodes ! 0)))
                                 - usedMemory (node (getNodeFit 1 2 (nodes ! 0))))
                      @ '' Gi available.''\<rparr> = ?P"
    by (simp add: getNodeFit_def nodes_def showInt_def showNat.simps digitChar_def)
  note T1 = scheduler_pending_iff_no_eligible_node
         [where ns = "[nodes ! 2]" and c = 1 and m = 1 and s = schedInit
            and b = "getNodeFit 1 1 (nodes ! 2)" and k = "nodes ! 2"]
  from T1 t have 1: "decide [nodes ! 2] 1 1 = pendingPlacement" by simp
  note T2 = scheduler_pending_iff_no_eligible_node
         [where ns = nodes and c = 4 and m = 1 and s = schedInit
            and b = "getNodeFit 1 1 (nodes ! 2)" and k = "nodes ! 2"]
  from T2 a have 2: "decide nodes 4 1 = pendingPlacement" by blast
  note T3 = scheduler_pending_iff_no_eligible_node
         [where ns = nodes and c = 1 and m = 6 and s = schedInit
            and b = "getNodeFit 1 1 (nodes ! 2)" and k = "nodes ! 2"]
  from T3 b have 3: "decide nodes 1 6 = pendingPlacement" by blast
  note T4 = scheduler_pending_iff_no_eligible_node
         [where ns = nodes and c = 1 and m = 2 and s = schedInit
            and b = "getNodeFit 1 2 (nodes ! 0)" and k = "nodes ! 2"]
  from T4 p have "decide nodes 1 2
      = \<lparr>nodeName = name_node (node (getNodeFit 1 2 (nodes ! 0))),
             reason = ''Best fit: ''
                      @ showInt (totalCpu (node (getNodeFit 1 2 (nodes ! 0)))
                                 - usedCpu (node (getNodeFit 1 2 (nodes ! 0))))
                      @ '' vCPU and ''
                      @ showInt (totalMemory (node (getNodeFit 1 2 (nodes ! 0)))
                                 - usedMemory (node (getNodeFit 1 2 (nodes ! 0))))
                      @ '' Gi available.''\<rparr>" by blast
  with ex have 4: "decide nodes 1 2 = ?P" by simp
  then have h4: "decide nodes 1 2 \<noteq> pendingPlacement" by (simp add: pendingPlacement_def)
  from T4 m 4 have 5: "scheduled (fireSched (Evaluate 1 2) schedInit) = Some ?P" by simp
  from T4 r m have "scheduled (stepSched (schedulePod schedInit))
      = Some (decide nodes (cpuReq schedInit) (memReq schedInit))" by blast
  with q 4 have 6: "scheduled (stepSched (schedulePod schedInit)) = Some ?P" by simp
  note T5 = scheduler_pending_iff_no_eligible_node
         [where ns = nodes and c = 1 and m = 2 and s = "setCpuReq 4 schedInit"
            and b = "getNodeFit 1 2 (nodes ! 0)" and k = "nodes ! 2"]
  from T5 r4 m4 have "(scheduled (stepSched (schedulePod (setCpuReq 4 schedInit))) = Some pendingPlacement)
             = (3 < cpuReq (setCpuReq 4 schedInit) \<or> 5 < memReq (setCpuReq 4 schedInit))"
    by blast
  with q(3) have 7: "scheduled (stepSched (schedulePod (setCpuReq 4 schedInit))) = Some pendingPlacement"
    by simp
  have c: "1 \<le> totalCpu (nodes ! 2) - usedCpu (nodes ! 2)" by (simp add: nodes_def)
  from 1 2 3 4 h4 5 6 7 p t m r r4 m4 c show ?thesis by blast
qed

text \<open>
  Claim C7. The decision of each mock decider is a function of the rule table, the toggles
  and the request. Scheduler: from any two reachable mounted states with the same
  \<^verbatim>\<open>cpuReq\<close> and \<^verbatim>\<open>memReq\<close>, \<^verbatim>\<open>schedulePod\<close> followed by its timer stores the same
  placement, the one decided on the table for that request; a request changed while the
  timer is pending does not change it. NetworkPolicy: from any two reachable mounted idle
  states with the same \<^verbatim>\<open>policyActive\<close>, \<^verbatim>\<open>sendTraffic\<close> followed by its timer stores the
  same result, allowed exactly when the policy of the sending state does not block the
  pair; a toggle while the packet is in flight does not change it. RBAC: \<^verbatim>\<open>tryAccess\<close>
  records an attempt, whose result and reason string are given by the role's verbs and the
  action alone, hence equal in any two states with the same role. The scheduler picks,
  whenever some node fits, a fitting node of the table whose free CPU plus free memory is
  greatest among the fitting nodes, and the placement carries that node's name and its
  free CPU and memory.
\<close>

theorem mock_deciders_deterministic:
  "(reachableSched s1 \<and> reachableSched s2 \<and> isMounted_sc s1 \<and> isMounted_sc s2
      \<and> cpuReq s1 = cpuReq s2 \<and> memReq s1 = memReq s2 \<longrightarrow>
      scheduled (stepSched (schedulePod s1)) = scheduled (stepSched (schedulePod s2))
      \<and> scheduled (stepSched (schedulePod s1)) = Some (decide nodes (cpuReq s1) (memReq s1))
      \<and> scheduled (stepSched (setCpuReq v (schedulePod s1)))
          = Some (decide nodes (cpuReq s1) (memReq s1))
      \<and> scheduled (stepSched (setMemReq v (schedulePod s1)))
          = Some (decide nodes (cpuReq s1) (memReq s1)))
   \<and> (reachableNet n1 \<and> reachableNet n2 \<and> isMounted_np n1 \<and> isMounted_np n2
        \<and> \<not> animating n1 \<and> \<not> animating n2 \<and> src \<noteq> dst
        \<and> policyActive n1 = policyActive n2 \<longrightarrow>
        lastResult (stepNet (sendTraffic src dst n1))
          = lastResult (stepNet (sendTraffic src dst n2))
        \<and> lastResult (stepNet (sendTraffic src dst n1))
            = Some \<lparr>allowed = \<not> isBlocked (policyActive n1) src dst, from_res = src,
                    to_res = dst\<rparr>
        \<and> lastResult (stepNet (togglePolicy (sendTraffic src dst n1)))
            = Some \<lparr>allowed = \<not> isBlocked (policyActive n1) src dst, from_res = src,
                    to_res = dst\<rparr>)
   \<and> (isMounted_np n1 \<longrightarrow>
        lastResult (fireNet (Deliver src dst active) n1)
          = Some \<lparr>allowed = \<not> isBlocked active src dst, from_res = src, to_res = dst\<rparr>)
   \<and> attempts (tryAccess act res a1) \<noteq> []
   \<and> action (hd (attempts (tryAccess act res a1))) = act
   \<and> resource (hd (attempts (tryAccess act res a1))) = res
   \<and> result (hd (attempts (tryAccess act res a1)))
       = (if act \<in> set (RBAC_PERMISSIONS (role a1)) then Allowed else Denied)
   \<and> reason_at (hd (attempts (tryAccess act res a1)))
       = ''Role '' @ dquote @ roleName (role a1) @ dquote
         @ (if act \<in> set (RBAC_PERMISSIONS (role a1)) then '' has '' else '' lacks '')
         @ dquote @ act @ dquote @ '' verb''
   \<and> (role a1 = role a2 \<longrightarrow>
        result (hd (attempts (tryAccess act res a1)))
          = result (hd (attempts (tryAccess act res a2)))
        \<and> reason_at (hd (attempts (tryAccess act res a1)))
          = reason_at (hd (attempts (tryAccess act res a2))))
   \<and> (pickBest (candidates ns c m) = Some b \<longrightarrow>
        node b \<in> set ns \<and> b = getNodeFit c m (node b) \<and> fits b
        \<and> (\<forall>n\<in>set ns. fits (getNodeFit c m n) \<longrightarrow>
               (totalCpu n - usedCpu n) + (totalMemory n - usedMemory n)
                 \<le> availCpu b + availMem b)
        \<and> decide ns c m = placementOf b)
   \<and> ((\<exists>n\<in>set ns. fits (getNodeFit c m n)) \<longrightarrow>
        (\<exists>n\<in>set ns. fits (getNodeFit c m n)
           \<and> (\<forall>k\<in>set ns. fits (getNodeFit c m k) \<longrightarrow>
                  (totalCpu k - usedCpu k) + (totalMemory k - usedMemory k)
                    \<le> (totalCpu n - usedCpu n) + (totalMemory n - usedMemory n))
           \<and> decide ns c m
               = \<lparr>nodeName = name_node n,
                  reason = ''Best fit: '' @ showInt (totalCpu n - usedCpu n)
                           @ '' vCPU and '' @ showInt (totalMemory n - usedMemory n)
                           @ '' Gi available.''\<rparr>))
   \<and> (candidates ns c m \<noteq> [] \<longrightarrow> (\<exists>b'. pickBest (candidates ns c m) = Some b'))"
proof (intro conjI impI)
  assume a: "reachableSched s1 \<and> reachableSched s2 \<and> isMounted_sc s1 \<and> isMounted_sc s2
      \<and> cpuReq s1 = cpuReq s2 \<and> memReq s1 = memReq s2"
  then have r1: "reachableSched s1" and m1: "isMounted_sc s1"
    and r2: "reachableSched s2" and m2: "isMounted_sc s2" by simp_all
  note F1 = schedule_then_fire [OF r1 m1]
  note F2 = schedule_then_fire [OF r2 m2]
  from F1(1) F2(1) a
  show "scheduled (stepSched (schedulePod s1)) = scheduled (stepSched (schedulePod s2))"
    by simp
  show "scheduled (stepSched (schedulePod s1)) = Some (decide nodes (cpuReq s1) (memReq s1))"
    by (rule F1(1))
  show "scheduled (stepSched (setCpuReq v (schedulePod s1)))
          = Some (decide nodes (cpuReq s1) (memReq s1))" by (rule F1(3))
  show "scheduled (stepSched (setMemReq v (schedulePod s1)))
          = Some (decide nodes (cpuReq s1) (memReq s1))" by (rule F1(4))
next
  assume a: "reachableNet n1 \<and> reachableNet n2 \<and> isMounted_np n1 \<and> isMounted_np n2
        \<and> \<not> animating n1 \<and> \<not> animating n2 \<and> src \<noteq> dst
        \<and> policyActive n1 = policyActive n2"
  then have h1: "reachableNet n1" "isMounted_np n1" "\<not> animating n1" "src \<noteq> dst"
    and h2: "reachableNet n2" "isMounted_np n2" "\<not> animating n2" by simp_all
  note G1 = send_then_fire [OF h1]
  note G2 = send_then_fire [OF h2 h1(4)]
  from G1(1) G2(1) a
  show "lastResult (stepNet (sendTraffic src dst n1))
          = lastResult (stepNet (sendTraffic src dst n2))" by simp
  show "lastResult (stepNet (sendTraffic src dst n1))
            = Some \<lparr>allowed = \<not> isBlocked (policyActive n1) src dst, from_res = src,
                    to_res = dst\<rparr>" by (rule G1(1))
  show "lastResult (stepNet (togglePolicy (sendTraffic src dst n1)))
            = Some \<lparr>allowed = \<not> isBlocked (policyActive n1) src dst, from_res = src,
                    to_res = dst\<rparr>" by (rule G1(2))
next
  assume "isMounted_np n1"
  then show "lastResult (fireNet (Deliver src dst active) n1)
          = Some \<lparr>allowed = \<not> isBlocked active src dst, from_res = src, to_res = dst\<rparr>"
    by (simp add: Let_def)
next
  show "attempts (tryAccess act res a1) \<noteq> []" by (rule tryAccess_head(1))
  show "action (hd (attempts (tryAccess act res a1))) = act" by (rule tryAccess_head(4))
  show "resource (hd (attempts (tryAccess act res a1))) = res" by (rule tryAccess_head(5))
  show "result (hd (attempts (tryAccess act res a1)))
       = (if act \<in> set (RBAC_PERMISSIONS (role a1)) then Allowed else Denied)"
    by (rule tryAccess_head(2))
  show "reason_at (hd (attempts (tryAccess act res a1)))
       = ''Role '' @ dquote @ roleName (role a1) @ dquote
         @ (if act \<in> set (RBAC_PERMISSIONS (role a1)) then '' has '' else '' lacks '')
         @ dquote @ act @ dquote @ '' verb''"
    by (rule tryAccess_head(3))
next
  assume r: "role a1 = role a2"
  then show "result (hd (attempts (tryAccess act res a1)))
          = result (hd (attempts (tryAccess act res a2)))"
    by (simp add: tryAccess_head(2))
  from r show "reason_at (hd (attempts (tryAccess act res a1)))
          = reason_at (hd (attempts (tryAccess act res a2)))"
    by (simp add: tryAccess_head(3))
next
  assume b: "pickBest (candidates ns c m) = Some b"
  from pickBest_Some(1) [OF b] obtain n where n: "n \<in> set ns" "b = getNodeFit c m n"
    "fits (getNodeFit c m n)"
    unfolding candidates_set by auto
  from n show "node b \<in> set ns" by (simp add: getNodeFit_fields)
  from n show "b = getNodeFit c m (node b)" by (simp add: getNodeFit_fields)
  from n show "fits b" by simp
  show "\<forall>n\<in>set ns. fits (getNodeFit c m n) \<longrightarrow>
          (totalCpu n - usedCpu n) + (totalMemory n - usedMemory n) \<le> availCpu b + availMem b"
  proof (intro ballI impI)
    fix k assume k: "k \<in> set ns" "fits (getNodeFit c m k)"
    then have "getNodeFit c m k \<in> set (candidates ns c m)" unfolding candidates_set by auto
    with pickBest_Some(2) [OF b]
    have "availCpu (getNodeFit c m k) + availMem (getNodeFit c m k) \<le> availCpu b + availMem b"
      by blast
    then show "(totalCpu k - usedCpu k) + (totalMemory k - usedMemory k) \<le> availCpu b + availMem b"
      by (simp add: getNodeFit_fields)
  qed
  from b show "decide ns c m = placementOf b" by (rule decide_best)
next
  assume "\<exists>n\<in>set ns. fits (getNodeFit c m n)"
  then have "set (candidates ns c m) \<noteq> {}" unfolding candidates_set by auto
  then have "pickBest (candidates ns c m) \<noteq> None" by (simp add: pickBest_None)
  then obtain b where b: "pickBest (candidates ns c m) = Some b" by auto
  from pickBest_Some(1) [OF b] obtain n where n: "n \<in> set ns" "b = getNodeFit c m n"
    "fits (getNodeFit c m n)"
    unfolding candidates_set by auto
  from n(2) have nb: "node b = n" by (simp add: getNodeFit_fields)
  have mx: "\<forall>k\<in>set ns. fits (getNodeFit c m k) \<longrightarrow>
                  (totalCpu k - usedCpu k) + (totalMemory k - usedMemory k)
                    \<le> (totalCpu n - usedCpu n) + (totalMemory n - usedMemory n)"
  proof (intro ballI impI)
    fix k assume k: "k \<in> set ns" "fits (getNodeFit c m k)"
    then have "getNodeFit c m k \<in> set (candidates ns c m)" unfolding candidates_set by auto
    with pickBest_Some(2) [OF b]
    have "availCpu (getNodeFit c m k) + availMem (getNodeFit c m k) \<le> availCpu b + availMem b"
      by blast
    with n(2) show "(totalCpu k - usedCpu k) + (totalMemory k - usedMemory k)
                    \<le> (totalCpu n - usedCpu n) + (totalMemory n - usedMemory n)"
      by (simp add: getNodeFit_fields)
  qed
  from decide_best_explicit [OF b] nb
  have d: "decide ns c m
               = \<lparr>nodeName = name_node n,
                  reason = ''Best fit: '' @ showInt (totalCpu n - usedCpu n)
                           @ '' vCPU and '' @ showInt (totalMemory n - usedMemory n)
                           @ '' Gi available.''\<rparr>" by simp
  from n(1) n(3) mx d
  show "\<exists>n\<in>set ns. fits (getNodeFit c m n)
           \<and> (\<forall>k\<in>set ns. fits (getNodeFit c m k) \<longrightarrow>
                  (totalCpu k - usedCpu k) + (totalMemory k - usedMemory k)
                    \<le> (totalCpu n - usedCpu n) + (totalMemory n - usedMemory n))
           \<and> decide ns c m
               = \<lparr>nodeName = name_node n,
                  reason = ''Best fit: '' @ showInt (totalCpu n - usedCpu n)
                           @ '' vCPU and '' @ showInt (totalMemory n - usedMemory n)
                           @ '' Gi available.''\<rparr>" by blast
next
  assume "candidates ns c m \<noteq> []"
  then have "pickBest (candidates ns c m) \<noteq> None" by (simp add: pickBest_None)
  then show "\<exists>b'. pickBest (candidates ns c m) = Some b'" by auto
qed

text \<open>
  Two states of each component that differ outside the decider's inputs: the scheduler
  before and after a first \<^verbatim>\<open>schedulePod\<close>, the NetworkPolicy simulator before and after a
  delivered test, two RBAC states with the same role; and the pick on the component's
  table, node-1 with 8 free units over node-2 with 3.
\<close>

theorem mock_deciders_deterministic_witness:
  "reachableSched schedInit \<and> reachableSched (schedulePod schedInit)
   \<and> isMounted_sc schedInit \<and> isMounted_sc (schedulePod schedInit)
   \<and> cpuReq schedInit = cpuReq (schedulePod schedInit)
   \<and> memReq schedInit = memReq (schedulePod schedInit)
   \<and> scheduled (stepSched (schedulePod schedInit))
       = scheduled (stepSched (schedulePod (schedulePod schedInit)))
   \<and> scheduled (stepSched (schedulePod schedInit))
       = Some \<lparr>nodeName = ''node-1'', reason = ''Best fit: 3 vCPU and 5 Gi available.''\<rparr>
   \<and> scheduled (stepSched (setCpuReq 4 (schedulePod schedInit)))
       = Some \<lparr>nodeName = ''node-1'', reason = ''Best fit: 3 vCPU and 5 Gi available.''\<rparr>
   \<and> reachableNet (togglePolicy netpolInit)
   \<and> reachableNet (stepNet (sendTraffic ''api'' ''database'' (togglePolicy netpolInit)))
   \<and> isMounted_np (togglePolicy netpolInit)
   \<and> isMounted_np (stepNet (sendTraffic ''api'' ''database'' (togglePolicy netpolInit)))
   \<and> \<not> animating (togglePolicy netpolInit)
   \<and> \<not> animating (stepNet (sendTraffic ''api'' ''database'' (togglePolicy netpolInit)))
   \<and> ''frontend'' \<noteq> ''database''
   \<and> policyActive (togglePolicy netpolInit)
       = policyActive (stepNet (sendTraffic ''api'' ''database'' (togglePolicy netpolInit)))
   \<and> lastResult (stepNet (sendTraffic ''frontend'' ''database'' (togglePolicy netpolInit)))
       = lastResult (stepNet (sendTraffic ''frontend'' ''database''
                       (stepNet (sendTraffic ''api'' ''database'' (togglePolicy netpolInit)))))
   \<and> lastResult (stepNet (sendTraffic ''frontend'' ''database'' (togglePolicy netpolInit)))
       = Some \<lparr>allowed = False, from_res = ''frontend'', to_res = ''database''\<rparr>
   \<and> lastResult (stepNet (togglePolicy
                    (sendTraffic ''frontend'' ''database'' (togglePolicy netpolInit))))
       = Some \<lparr>allowed = False, from_res = ''frontend'', to_res = ''database''\<rparr>
   \<and> role \<lparr>resourceType = secret, role = editor, showSecret = False, attempts = [],
              attemptId = 0\<rparr>
       = role \<lparr>resourceType = configmap, role = editor, showSecret = True, attempts = [],
              attemptId = 7\<rparr>
   \<and> result (hd (attempts (tryAccess ''delete'' secret
         \<lparr>resourceType = secret, role = editor, showSecret = False, attempts = [],
            attemptId = 0\<rparr>))) = Denied
   \<and> reason_at (hd (attempts (tryAccess ''delete'' secret
         \<lparr>resourceType = secret, role = editor, showSecret = False, attempts = [],
            attemptId = 0\<rparr>)))
       = ''Role '' @ dquote @ ''editor'' @ dquote @ '' lacks '' @ dquote @ ''delete'' @ dquote
         @ '' verb''
   \<and> reason_at (hd (attempts (tryAccess ''delete'' secret
         \<lparr>resourceType = secret, role = editor, showSecret = False, attempts = [],
            attemptId = 0\<rparr>)))
       = reason_at (hd (attempts (tryAccess ''delete'' secret
         \<lparr>resourceType = configmap, role = editor, showSecret = True, attempts = [],
            attemptId = 7\<rparr>)))
   \<and> pickBest (candidates nodes 1 2) = Some (getNodeFit 1 2 (nodes ! 0))
   \<and> fits (getNodeFit 1 2 (nodes ! 1))
   \<and> (totalCpu (nodes ! 1) - usedCpu (nodes ! 1)) + (totalMemory (nodes ! 1) - usedMemory (nodes ! 1))
       \<le> availCpu (getNodeFit 1 2 (nodes ! 0)) + availMem (getNodeFit 1 2 (nodes ! 0))
   \<and> decide nodes 1 2 \<noteq> pendingPlacement
   \<and> candidates nodes 1 2 \<noteq> []"
proof -
  let ?P = "\<lparr>nodeName = ''node-1'', reason = ''Best fit: 3 vCPU and 5 Gi available.''\<rparr>"
  let ?a1 = "\<lparr>resourceType = secret, role = editor, showSecret = False, attempts = [],
              attemptId = 0\<rparr>"
  let ?a2 = "\<lparr>resourceType = configmap, role = editor, showSecret = True, attempts = [],
              attemptId = 7\<rparr>"
  let ?n1 = "togglePolicy netpolInit"
  let ?n2 = "stepNet (sendTraffic ''api'' ''database'' (togglePolicy netpolInit))"
  have p: "pickBest (candidates nodes 1 2) = Some (getNodeFit 1 2 (nodes ! 0))"
    by (simp add: candidates_def nodes_def getNodeFit_def pickBest_def)
  have d: "decide nodes 1 2 = ?P"
    unfolding decide_best_explicit [OF p]
    by (simp add: getNodeFit_def nodes_def showInt_def showNat.simps digitChar_def)
  have rs: "reachableSched schedInit" "reachableSched (schedulePod schedInit)"
    by (intro reachableSched.intros)+
  have m0: "isMounted_sc schedInit" by (simp add: schedInit_def)
  note M = schedulePod_mounted [OF schedInv_reachable [OF rs_init] m0]
  from m0 M(4) have ms: "isMounted_sc schedInit" "isMounted_sc (schedulePod schedInit)"
    by simp_all
  have q: "cpuReq schedInit = 1" "memReq schedInit = 2"
    "cpuReq (schedulePod schedInit) = 1" "memReq (schedulePod schedInit) = 2"
    by (simp_all add: M(5) M(6)) (simp_all add: schedInit_def)
  have rn: "reachableNet ?n1" "reachableNet ?n2"
    by (intro reachableNet.intros)+
  have n1: "isMounted_np ?n1" "\<not> animating ?n1" "policyActive ?n1"
    by (simp_all add: netpolInit_def togglePolicy_def)
  have n2: "isMounted_np ?n2" "\<not> animating ?n2" "policyActive ?n2"
    by (simp_all add: netpolInit_def togglePolicy_def sendTraffic_def stepNet_def
        setTimeout_def popTimer_def emptyLoop_def Let_def)
  have sd: "''frontend'' \<noteq> ''database''" by simp
  have bl: "isBlocked True ''frontend'' ''database''" by (simp add: isBlocked_def)
  have r: "role ?a1 = role ?a2" by simp
  have f: "fits (getNodeFit 1 2 (nodes ! 1))" by (simp add: getNodeFit_def nodes_def)
  have k: "nodes ! 1 \<in> set nodes" by (simp add: nodes_def)
  have ne: "candidates nodes 1 2 \<noteq> []" using p by (auto simp: pickBest_def)
  note T = mock_deciders_deterministic
    [where ?s1.0 = schedInit and ?s2.0 = "schedulePod schedInit" and v = 4
       and c = 1 and m = 2
       and ?n1.0 = ?n1 and ?n2.0 = ?n2 and src = "''frontend''"
       and dst = "''database''" and active = True
       and ?a1.0 = ?a1 and ?a2.0 = ?a2
       and act = "''delete''" and res = secret and ns = nodes
       and b = "getNodeFit 1 2 (nodes ! 0)"]
  from q have qe: "cpuReq schedInit = cpuReq (schedulePod schedInit)"
    "memReq schedInit = memReq (schedulePod schedInit)" by simp_all
  from T rs ms qe
  have s: "scheduled (stepSched (schedulePod schedInit))
             = scheduled (stepSched (schedulePod (schedulePod schedInit)))"
    "scheduled (stepSched (schedulePod schedInit))
       = Some (decide nodes (cpuReq schedInit) (memReq schedInit))"
    "scheduled (stepSched (setCpuReq 4 (schedulePod schedInit)))
       = Some (decide nodes (cpuReq schedInit) (memReq schedInit))"
    by blast+
  from s(2) s(3) q d
  have s': "scheduled (stepSched (schedulePod schedInit)) = Some ?P"
    "scheduled (stepSched (setCpuReq 4 (schedulePod schedInit))) = Some ?P"
    by simp_all
  from n1(3) n2(3) have pe: "policyActive ?n1 = policyActive ?n2" by simp
  from T rn n1(1,2) n2(1,2) sd pe
  have t: "lastResult (stepNet (sendTraffic ''frontend'' ''database'' ?n1))
             = lastResult (stepNet (sendTraffic ''frontend'' ''database'' ?n2))"
    "lastResult (stepNet (sendTraffic ''frontend'' ''database'' ?n1))
       = Some \<lparr>allowed = \<not> isBlocked (policyActive ?n1) ''frontend'' ''database'',
               from_res = ''frontend'', to_res = ''database''\<rparr>"
    "lastResult (stepNet (togglePolicy (sendTraffic ''frontend'' ''database'' ?n1)))
       = Some \<lparr>allowed = \<not> isBlocked (policyActive ?n1) ''frontend'' ''database'',
               from_res = ''frontend'', to_res = ''database''\<rparr>"
    by blast+
  from t(2) t(3) n1(3) bl
  have t': "lastResult (stepNet (sendTraffic ''frontend'' ''database'' ?n1))
       = Some \<lparr>allowed = False, from_res = ''frontend'', to_res = ''database''\<rparr>"
    "lastResult (stepNet (togglePolicy (sendTraffic ''frontend'' ''database'' ?n1)))
       = Some \<lparr>allowed = False, from_res = ''frontend'', to_res = ''database''\<rparr>"
    by simp_all
  from T have "result (hd (attempts (tryAccess ''delete'' secret ?a1)))
       = (if ''delete'' \<in> set (RBAC_PERMISSIONS (role ?a1)) then Allowed else Denied)"
    by blast
  then have a: "result (hd (attempts (tryAccess ''delete'' secret ?a1))) = Denied" by simp
  from T have "reason_at (hd (attempts (tryAccess ''delete'' secret ?a1)))
       = ''Role '' @ dquote @ roleName (role ?a1) @ dquote
         @ (if ''delete'' \<in> set (RBAC_PERMISSIONS (role ?a1)) then '' has '' else '' lacks '')
         @ dquote @ ''delete'' @ dquote @ '' verb''" by blast
  then have a': "reason_at (hd (attempts (tryAccess ''delete'' secret ?a1)))
       = ''Role '' @ dquote @ ''editor'' @ dquote @ '' lacks '' @ dquote @ ''delete'' @ dquote
         @ '' verb''" by simp
  from T r have a'': "reason_at (hd (attempts (tryAccess ''delete'' secret ?a1)))
       = reason_at (hd (attempts (tryAccess ''delete'' secret ?a2)))" by blast
  from T p k f have 4: "(totalCpu (nodes ! 1) - usedCpu (nodes ! 1)) + (totalMemory (nodes ! 1) - usedMemory (nodes ! 1))
       \<le> availCpu (getNodeFit 1 2 (nodes ! 0)) + availMem (getNodeFit 1 2 (nodes ! 0))" by blast
  from k f have e: "\<exists>n\<in>set nodes. fits (getNodeFit 1 2 n)" by blast
  from T e have "\<exists>n\<in>set nodes. fits (getNodeFit 1 2 n)
           \<and> (\<forall>k\<in>set nodes. fits (getNodeFit 1 2 k) \<longrightarrow>
                  (totalCpu k - usedCpu k) + (totalMemory k - usedMemory k)
                    \<le> (totalCpu n - usedCpu n) + (totalMemory n - usedMemory n))
           \<and> decide nodes 1 2
               = \<lparr>nodeName = name_node n,
                  reason = ''Best fit: '' @ showInt (totalCpu n - usedCpu n)
                           @ '' vCPU and '' @ showInt (totalMemory n - usedMemory n)
                           @ '' Gi available.''\<rparr>" by blast
  then have 5: "decide nodes 1 2 \<noteq> pendingPlacement"
    by (elim bexE conjE) (simp add: pendingPlacement_def)
  from rs ms qe s(1) s' rn n1(1,2) n2(1,2) sd pe t(1) t' r a a' a'' p f 4 5 ne
  show ?thesis by blast
qed

section \<open>The control plane journey\<close>

lemma nSteps_6: "nSteps = 6"
  by (simp add: nSteps_def STEPS_def)














lemma stepCpj_single:
  assumes "pending (loop_cp s) = []"
  shows "stepCpj (sleep ms k s) =
           fireCpj k
             (s\<lparr>timeoutIds_cp := timeoutIds_cp s @ [nextId (loop_cp s)],
                loop_cp := (loop_cp s)\<lparr>nextId := Suc (nextId (loop_cp s)),
                                       now := now (loop_cp s) + ms, pending := []\<rparr>\<rparr>)"
  using assms by (simp add: stepCpj_def sleep_def setTimeout_def popTimer_def)

text \<open>
  Claim C6, as amended. \<^verbatim>\<open>advanceTo\<close> with an index above the cursor and below the number
  of steps marks the connector as traversing and schedules one timer, due after 480 ms,
  whose callback sets the cursor to that index on the mounted component; from a mounted
  state with no other timer pending, the next timer step does so. For an index at or below the
  cursor, at or above the number of steps, or negative, \<^verbatim>\<open>advanceTo\<close> changes nothing. The
  jump back to a step at or below the cursor is made by the click handler of the pipeline
  node, which sets the cursor at once and schedules and cancels no timer.
\<close>

theorem advanceTo_forward_and_click_backward:
  "(activeIndex s < n \<and> n < nSteps \<and> isMounted_cp s \<and> pending (loop_cp s) = [] \<longrightarrow>
      activeIndex (advanceTo n s) = activeIndex s
      \<and> traversingIndex (advanceTo n s) = Some (n - 1)
      \<and> activeIndex (stepCpj (advanceTo n s)) = n
      \<and> traversingIndex (stepCpj (advanceTo n s)) = None
      \<and> pending (loop_cp (stepCpj (advanceTo n s))) = [])
   \<and> (activeIndex s < n \<and> n < nSteps \<longrightarrow>
        pending (loop_cp (advanceTo n s))
          = pending (loop_cp s)
            @ [\<lparr>tid = nextId (loop_cp s), due = now (loop_cp s) + 480,
                callback = AdvanceDone n\<rparr>])
   \<and> (isMounted_cp s \<longrightarrow>
        activeIndex (fireCpj (AdvanceDone n) s) = n
        \<and> traversingIndex (fireCpj (AdvanceDone n) s) = None)
   \<and> (n \<le> activeIndex s \<or> nSteps \<le> n \<longrightarrow> advanceTo n s = s)
   \<and> (0 \<le> activeIndex s \<and> n < 0 \<longrightarrow> advanceTo n s = s)
   \<and> (i \<le> activeIndex s \<longrightarrow>
        activeIndex (nodeClick i s) = i \<and> traversingIndex (nodeClick i s) = None
        \<and> loop_cp (nodeClick i s) = loop_cp s
        \<and> timeoutIds_cp (nodeClick i s) = timeoutIds_cp s)"
proof (intro conjI impI)
  assume a: "activeIndex s < n \<and> n < nSteps \<and> isMounted_cp s \<and> pending (loop_cp s) = []"
  then have e: "advanceTo n s = sleep 480 (AdvanceDone n) (s\<lparr>traversingIndex := Some (n - 1)\<rparr>)"
    by (simp add: advanceTo_def)
  show "activeIndex (advanceTo n s) = activeIndex s"
    unfolding e by (simp add: sleep_def setTimeout_def)
  show "traversingIndex (advanceTo n s) = Some (n - 1)"
    unfolding e by (simp add: sleep_def setTimeout_def)
  from a have p: "pending (loop_cp (s\<lparr>traversingIndex := Some (n - 1)\<rparr>)) = []" by simp
  show "activeIndex (stepCpj (advanceTo n s)) = n"
    unfolding e stepCpj_single [OF p] using a by simp
  show "traversingIndex (stepCpj (advanceTo n s)) = None"
    unfolding e stepCpj_single [OF p] using a by simp
  show "pending (loop_cp (stepCpj (advanceTo n s))) = []"
    unfolding e stepCpj_single [OF p] using a by simp
next
  assume "activeIndex s < n \<and> n < nSteps"
  then show "pending (loop_cp (advanceTo n s))
          = pending (loop_cp s)
            @ [\<lparr>tid = nextId (loop_cp s), due = now (loop_cp s) + 480,
                callback = AdvanceDone n\<rparr>]"
    by (simp add: advanceTo_def sleep_def setTimeout_def)
next
  assume m: "isMounted_cp s"
  then show "activeIndex (fireCpj (AdvanceDone n) s) = n" by simp
  from m show "traversingIndex (fireCpj (AdvanceDone n) s) = None" by simp
next
  assume "n \<le> activeIndex s \<or> nSteps \<le> n"
  then show "advanceTo n s = s" by (simp add: advanceTo_def)
next
  assume "0 \<le> activeIndex s \<and> n < 0"
  then show "advanceTo n s = s" by (simp add: advanceTo_def)
next
  assume i: "i \<le> activeIndex s"
  then show "activeIndex (nodeClick i s) = i" by (simp add: nodeClick_def)
  from i show "traversingIndex (nodeClick i s) = None" by (simp add: nodeClick_def)
  from i show "loop_cp (nodeClick i s) = loop_cp s" by (simp add: nodeClick_def)
  from i show "timeoutIds_cp (nodeClick i s) = timeoutIds_cp s" by (simp add: nodeClick_def)
qed

lemmas cpj_eval =
  cpjInit_def advanceTo_def sleep_def setTimeout_def emptyLoop_def stepCpj_def popTimer_def
  nSteps_6 nodeClick_def

text \<open>
  From the initial state: forward to step 3, then out of range above and below, then the
  click on node 1.
\<close>

theorem advanceTo_forward_and_click_backward_witness:
  "activeIndex cpjInit < 3 \<and> 3 < nSteps \<and> isMounted_cp cpjInit \<and> pending (loop_cp cpjInit) = []
   \<and> activeIndex (advanceTo 3 cpjInit) = 0
   \<and> activeIndex (stepCpj (advanceTo 3 cpjInit)) = 3
   \<and> advanceTo 6 (stepCpj (advanceTo 3 cpjInit)) = stepCpj (advanceTo 3 cpjInit)
   \<and> advanceTo (- 1) (stepCpj (advanceTo 3 cpjInit)) = stepCpj (advanceTo 3 cpjInit)
   \<and> activeIndex (nodeClick 1 (stepCpj (advanceTo 3 cpjInit))) = 1
   \<and> loop_cp (nodeClick 1 (stepCpj (advanceTo 3 cpjInit))) = loop_cp (stepCpj (advanceTo 3 cpjInit))"
proof -
  have h: "activeIndex cpjInit < 3 \<and> 3 < nSteps \<and> isMounted_cp cpjInit \<and> pending (loop_cp cpjInit) = []"
    by (simp add: cpjInit_def emptyLoop_def nSteps_6)
  note T1 = advanceTo_forward_and_click_backward [where s = cpjInit and n = 3 and i = 0]
  from T1 h have a: "activeIndex (advanceTo 3 cpjInit) = activeIndex cpjInit"
    and b: "activeIndex (stepCpj (advanceTo 3 cpjInit)) = 3" by blast+
  have a0: "activeIndex cpjInit = 0" by (simp add: cpjInit_def)
  note T2 = advanceTo_forward_and_click_backward
    [where s = "stepCpj (advanceTo 3 cpjInit)" and n = 6 and i = 1]
  from T2 have c: "advanceTo 6 (stepCpj (advanceTo 3 cpjInit)) = stepCpj (advanceTo 3 cpjInit)"
    by (simp add: nSteps_6)
  from T2 b have d: "activeIndex (nodeClick 1 (stepCpj (advanceTo 3 cpjInit))) = 1"
    and e: "loop_cp (nodeClick 1 (stepCpj (advanceTo 3 cpjInit))) = loop_cp (stepCpj (advanceTo 3 cpjInit))"
    by simp_all
  note T3 = advanceTo_forward_and_click_backward
    [where s = "stepCpj (advanceTo 3 cpjInit)" and n = "- 1" and i = 1]
  from T3 b have f: "advanceTo (- 1) (stepCpj (advanceTo 3 cpjInit)) = stepCpj (advanceTo 3 cpjInit)"
    by simp
  from h a a0 b c d e f show ?thesis by simp
qed

text \<open>
  Claim C6 as stated fails for a backward index: with the cursor at step 3 and nothing
  pending, \<^verbatim>\<open>advanceTo(1)\<close> returns the state unchanged, and the cursor is still 3 after any
  number of timer steps.
\<close>

theorem advanceTo_backward_counterexample:
  "activeIndex (stepCpj (advanceTo 3 cpjInit)) = 3
   \<and> pending (loop_cp (stepCpj (advanceTo 3 cpjInit))) = []
   \<and> advanceTo 1 (stepCpj (advanceTo 3 cpjInit)) = stepCpj (advanceTo 3 cpjInit)
   \<and> activeIndex (runCpj 5 (advanceTo 1 (stepCpj (advanceTo 3 cpjInit)))) = 3"
proof -
  have a: "activeIndex (stepCpj (advanceTo 3 cpjInit)) = 3"
    and p: "pending (loop_cp (stepCpj (advanceTo 3 cpjInit))) = []"
    by (simp_all add: cpj_eval)
  from a have b: "advanceTo 1 (stepCpj (advanceTo 3 cpjInit)) = stepCpj (advanceTo 3 cpjInit)"
    by (simp add: advanceTo_def)
  have q: "\<And>s k. pending (loop_cp s) = [] \<Longrightarrow> runCpj k s = s"
  proof -
    fix s :: cpj and k
    assume "pending (loop_cp s) = []"
    then have "stepCpj s = s" by (simp add: stepCpj_def popTimer_def)
    then show "runCpj k s = s" by (induction k) simp_all
  qed
  from q [OF p] a b p show ?thesis by simp
qed

section \<open>The request trace of the cluster anatomy explorer\<close>







section \<open>Invariants of the store and of the cursors\<close>





section \<open>The rollout\<close>

lemmas rollout_eval =
  startRollout_def clearAllTimeouts_def rolloutInit_def buildInitialPods_def addLog_def
  scheduleTimeout_def setTimeout_def clearTimeout_def emptyLoop_def totalPods_def
  stepRollout_def popTimer_def markReady_def markTerminating_def removeTerminated_def
  roundPercent_def STEP_DURATION_def showNat.simps digitChar_def Let_def upt_conv_Cons



lemma stepRollout_quiet: "pending (loop_ro s) = [] \<Longrightarrow> stepRollout env s = s"
  by (simp add: stepRollout_def popTimer_def)

lemma runRollout_quiet: "pending (loop_ro s) = [] \<Longrightarrow> runRollout env n s = s"
  by (induction n) (simp_all add: stepRollout_quiet)





section \<open>Starting while running\<close>

text \<open>
  Claim C5, as amended. \<^verbatim>\<open>runAll\<close> and \<^verbatim>\<open>sendTraffic\<close> return the state they were given,
  timers included, when their running flag is set. \<^verbatim>\<open>startRollout\<close> and \<^verbatim>\<open>schedulePod\<close>
  have no guard of their own: the buttons that call them are disabled while the simulator is
  running, so a click then changes nothing. Of the other sequencers, \<^verbatim>\<open>handleSendRequest\<close>
  of the service routing simulator returns at once while animating, and \<^verbatim>\<open>startTrace\<close> of
  the request trace, called while a trace runs, stops it.
\<close>

theorem start_while_running_is_noop:
  "(isRunningAll c \<longrightarrow> runAll c = c)
   \<and> (animating n \<longrightarrow> sendTraffic src dst n = n)
   \<and> (isRolling r \<longrightarrow> clickDeploy env r = r)
   \<and> (scheduling k \<longrightarrow> clickSchedule k = k)
   \<and> (animating_sr v \<longrightarrow> handleSendRequest v = v)
   \<and> (traceRunning t \<longrightarrow> startTrace t = stopTrace t)"
  by (simp add: runAll_def sendTraffic_def clickDeploy_def clickSchedule_def
      handleSendRequest_def startTrace_def)

text \<open>
  A running state of each of the six simulators.
\<close>

theorem start_while_running_is_noop_witness:
  "isRunningAll (runAll cpjInit)
   \<and> runAll (runAll cpjInit) = runAll cpjInit
   \<and> animating (sendTraffic ''api'' ''database'' netpolInit)
   \<and> sendTraffic ''frontend'' ''api'' (sendTraffic ''api'' ''database'' netpolInit)
       = sendTraffic ''api'' ''database'' netpolInit
   \<and> isRolling (startRollout \<lparr>random = showNat, delay07 = 980\<rparr>
                   (rolloutInit \<lparr>random = showNat, delay07 = 980\<rparr>))
   \<and> clickDeploy \<lparr>random = showNat, delay07 = 980\<rparr>
         (startRollout \<lparr>random = showNat, delay07 = 980\<rparr>
            (rolloutInit \<lparr>random = showNat, delay07 = 980\<rparr>))
       = startRollout \<lparr>random = showNat, delay07 = 980\<rparr>
           (rolloutInit \<lparr>random = showNat, delay07 = 980\<rparr>)
   \<and> scheduling (schedulePod schedInit)
   \<and> clickSchedule (schedulePod schedInit) = schedulePod schedInit
   \<and> animating_sr (handleSendRequest svcInit)
   \<and> handleSendRequest (handleSendRequest svcInit) = handleSendRequest svcInit
   \<and> traceRunning (startTrace anatomyInit)
   \<and> startTrace (startTrace anatomyInit) = stopTrace (startTrace anatomyInit)"
proof -
  let ?E = "\<lparr>random = showNat, delay07 = 980\<rparr>"
  have a: "isRunningAll (runAll cpjInit)"
    by (simp add: runAll_def runAllLoop_def cpjInit_def sleep_def setTimeout_def nSteps_def
        STEPS_def)
  have b: "animating (sendTraffic ''api'' ''database'' netpolInit)"
    by (simp add: sendTraffic_def netpolInit_def setTimeout_def)
  have c: "isRolling (startRollout ?E (rolloutInit ?E))"
    by (simp add: isRolling_def rollout_eval)
  have d: "scheduling (schedulePod schedInit)"
    by (simp add: schedulePod_def schedInit_def setTimeout_def Let_def)
  note T = start_while_running_is_noop
    [where c = "runAll cpjInit" and n = "sendTraffic ''api'' ''database'' netpolInit"
       and src = "''frontend''" and dst = "''api''"
       and r = "startRollout ?E (rolloutInit ?E)" and env = ?E and k = "schedulePod schedInit"
       and v = "handleSendRequest svcInit" and t = "startTrace anatomyInit"]
  from T a have 1: "runAll (runAll cpjInit) = runAll cpjInit" by blast
  from T b have 2: "sendTraffic ''frontend'' ''api'' (sendTraffic ''api'' ''database'' netpolInit)
       = sendTraffic ''api'' ''database'' netpolInit" by blast
  from T c have 3: "clickDeploy ?E (startRollout ?E (rolloutInit ?E))
       = startRollout ?E (rolloutInit ?E)" by blast
  from T d have 4: "clickSchedule (schedulePod schedInit) = schedulePod schedInit" by blast
  have e: "animating_sr (handleSendRequest svcInit)"
    by (simp add: svcInit_def handleSendRequest_def enterLayer_def layerPath_def
        scheduleTimeout_sr_def setTimeout_def Let_def)
  have f: "traceRunning (startTrace anatomyInit)"
    by (simp add: anatomyInit_def startTrace_def TRACE_STEPS_def upt_conv_Cons traceStepBody_def
        pushTrace_def setTimeout_def Let_def)
  from T e have 5: "handleSendRequest (handleSendRequest svcInit) = handleSendRequest svcInit"
    by blast
  from T f have 6: "startTrace (startTrace anatomyInit) = stopTrace (startTrace anatomyInit)"
    by blast
  from a b c d e f 1 2 3 4 5 6 show ?thesis by blast
qed

text \<open>
  Claim C5 as stated fails for the functions themselves. After five timers of a rollout the
  progress is 25 with three timers pending; \<^verbatim>\<open>startRollout\<close> called there sets the progress
  back to 0, rebuilds the pods and leaves four new timers pending. \<^verbatim>\<open>schedulePod\<close> called
  while scheduling replaces the pending timer by a new one.
\<close>

theorem startRollout_while_rolling_counterexample:
  "rolloutOutcome
     (runRollout \<lparr>random = showNat, delay07 = 980\<rparr> 5
        (startRollout \<lparr>random = showNat, delay07 = 980\<rparr>
           (rolloutInit \<lparr>random = showNat, delay07 = 980\<rparr>)))
     = ([Create, Terminate, Create], [V1, V1, V1, V2, V2],
        [Running, Running, Running, Running, Creating], Rolling, 25, 3)
   \<and> rolloutOutcome
       (startRollout \<lparr>random = showNat, delay07 = 980\<rparr>
          (runRollout \<lparr>random = showNat, delay07 = 980\<rparr> 5
             (startRollout \<lparr>random = showNat, delay07 = 980\<rparr>
                (rolloutInit \<lparr>random = showNat, delay07 = 980\<rparr>))))
     = ([], [V1, V1, V1, V1], [Running, Running, Running, Running], Rolling, 0, 4)
   \<and> scheduling (schedulePod schedInit)
   \<and> map tid (pending (loop_sc (schedulePod schedInit))) = [1]
   \<and> map tid (pending (loop_sc (schedulePod (schedulePod schedInit)))) = [2]"
proof -
  have five: "(5::nat) = Suc (Suc (Suc (Suc (Suc 0))))" by simp
  have a: "rolloutOutcome
     (runRollout \<lparr>random = showNat, delay07 = 980\<rparr> 5
        (startRollout \<lparr>random = showNat, delay07 = 980\<rparr>
           (rolloutInit \<lparr>random = showNat, delay07 = 980\<rparr>)))
     = ([Create, Terminate, Create], [V1, V1, V1, V2, V2],
        [Running, Running, Running, Running, Creating], Rolling, 25, 3)"
    unfolding five
    by (simp add: rollout_eval rolloutOutcome_def podEvents_def eventOf_def List.map_filter_simps)
  have b: "rolloutOutcome
       (startRollout \<lparr>random = showNat, delay07 = 980\<rparr>
          (runRollout \<lparr>random = showNat, delay07 = 980\<rparr> 5
             (startRollout \<lparr>random = showNat, delay07 = 980\<rparr>
                (rolloutInit \<lparr>random = showNat, delay07 = 980\<rparr>))))
     = ([], [V1, V1, V1, V1], [Running, Running, Running, Running], Rolling, 0, 4)"
    unfolding five
    by (simp add: rollout_eval rolloutOutcome_def podEvents_def eventOf_def List.map_filter_simps)
  have c: "scheduling (schedulePod schedInit)"
    and d: "map tid (pending (loop_sc (schedulePod schedInit))) = [1]"
    and e: "map tid (pending (loop_sc (schedulePod (schedulePod schedInit)))) = [2]"
    by (simp_all add: schedulePod_def schedInit_def setTimeout_def clearRef_def clearTimeout_def
        emptyLoop_def Let_def)
  from a b c d e show ?thesis by blast
qed

section \<open>Cancellation\<close>

text \<open>
  The rollout simulator, the control plane journey and the NetworkPolicy simulator push
  every handle they create onto their list, so in every reachable state the list tracks the
  pending timers, and clearing the list leaves nothing pending: after \<^verbatim>\<open>reset\<close>,
  \<^verbatim>\<open>handleReset\<close> or the unmount cleanup, no timer step changes the state.
\<close>

lemma tracked_setTimeout:
  "tracked ids l \<Longrightarrow> tracked (ids @ [fst (setTimeout cb d l)]) (snd (setTimeout cb d l))"
  by (auto simp: tracked_def setTimeout_def)

lemma tracked_mono:
  "tracked ids l \<Longrightarrow> set (pending l') \<subseteq> set (pending l) \<Longrightarrow> set ids \<subseteq> set ids'
   \<Longrightarrow> tracked ids' l'"
  by (auto simp: tracked_def)

lemma tracked_pop: "tracked ids l \<Longrightarrow> popTimer l = Some (cb, l') \<Longrightarrow> tracked ids l'"
  using popTimer_Some(2) by (fastforce simp: tracked_def)

lemma tracked_idle: "tracked ids l \<Longrightarrow> tracked ids (idle d l)"
  by (simp add: tracked_def pending_idle)

lemma tracked_clear: "tracked ids l \<Longrightarrow> pending (fold clearTimeout ids l) = []"
  by (simp add: pending_fold_clear_eq tracked_def filter_empty_conv)

lemma tracked_empty: "pending l = [] \<Longrightarrow> tracked ids l"
  by (simp add: tracked_def)

subsection \<open>Rollout: reset and clearAllTimeouts\<close>

lemma tracked_scheduleTimeout:
  "tracked (timeoutsRef s) (loop_ro s) \<Longrightarrow>
   tracked (timeoutsRef (scheduleTimeout fn d s)) (loop_ro (scheduleTimeout fn d s))"
  using tracked_setTimeout [of "timeoutsRef s" "loop_ro s" fn d]
  by (simp add: scheduleTimeout_def split_beta)

lemma frame_addLog [simp]:
  "loop_ro (addLog m t s) = loop_ro s" "timeoutsRef (addLog m t s) = timeoutsRef s"
  by (simp_all add: addLog_def)

lemma frame_markReady [simp]:
  "loop_ro (markReady a b s) = loop_ro s" "timeoutsRef (markReady a b s) = timeoutsRef s"
  by (simp_all add: markReady_def)

lemma frame_markTerminating [simp]:
  "loop_ro (markTerminating v s) = loop_ro s" "timeoutsRef (markTerminating v s) = timeoutsRef s"
  by (simp_all add: markTerminating_def Let_def split: option.splits)

lemma frame_removeTerminated [simp]:
  "loop_ro (removeTerminated v s) = loop_ro s" "timeoutsRef (removeTerminated v s) = timeoutsRef s"
  by (simp_all add: removeTerminated_def Let_def split: option.splits)

lemma tracked_fold_schedule:
  "tracked (timeoutsRef s) (loop_ro s) \<Longrightarrow>
   tracked (timeoutsRef (fold (\<lambda>i. scheduleTimeout (f i) (g i)) xs s))
           (loop_ro (fold (\<lambda>i. scheduleTimeout (f i) (g i)) xs s))"
  by (induction xs arbitrary: s) (simp_all add: tracked_scheduleTimeout)

lemma clearAll_quiet:
  "tracked (timeoutsRef s) (loop_ro s) \<Longrightarrow> pending (loop_ro (clearAllTimeouts s)) = []"
  by (simp add: clearAllTimeouts_def tracked_clear)

lemma tracked_clearAll:
  "tracked (timeoutsRef s) (loop_ro s) \<Longrightarrow>
   tracked (timeoutsRef (clearAllTimeouts s)) (loop_ro (clearAllTimeouts s))"
  by (rule tracked_empty) (rule clearAll_quiet)

lemma tracked_startRollout:
  assumes "tracked (timeoutsRef s) (loop_ro s)"
  shows "tracked (timeoutsRef (startRollout env s)) (loop_ro (startRollout env s))"
  unfolding startRollout_def Let_def
  by (rule tracked_fold_schedule) (simp add: tracked_clearAll [OF assms])

lemma tracked_startRollback:
  assumes "tracked (timeoutsRef s) (loop_ro s)"
  shows "tracked (timeoutsRef (startRollback env s)) (loop_ro (startRollback env s))"
  unfolding startRollback_def Let_def
  by (rule tracked_fold_schedule) (simp add: tracked_clearAll [OF assms])

lemma reset_quiet:
  "tracked (timeoutsRef s) (loop_ro s) \<Longrightarrow> pending (loop_ro (reset env s)) = []"
  by (simp add: reset_def Let_def clearAll_quiet)

lemma tracked_fire:
  assumes "tracked (timeoutsRef s) (loop_ro s)"
  shows "tracked (timeoutsRef (fireRollout env cb s)) (loop_ro (fireRollout env cb s))"
  using assms by (cases cb) (simp_all add: Let_def tracked_scheduleTimeout)

lemma tracked_stepRollout:
  assumes "tracked (timeoutsRef s) (loop_ro s)"
  shows "tracked (timeoutsRef (stepRollout env s)) (loop_ro (stepRollout env s))"
proof (cases "popTimer (loop_ro s)")
  case None
  with assms show ?thesis by (simp add: stepRollout_def)
next
  case (Some p)
  obtain cb l where p: "p = (cb, l)" by (cases p)
  with Some have ps: "popTimer (loop_ro s) = Some (cb, l)" by simp
  from tracked_pop [OF assms ps]
  have "tracked (timeoutsRef (s\<lparr>loop_ro := l\<rparr>)) (loop_ro (s\<lparr>loop_ro := l\<rparr>))" by simp
  from tracked_fire [OF this] ps show ?thesis by (simp add: stepRollout_def)
qed

lemma tracked_reachableRollout:
  "reachableRollout env s \<Longrightarrow> tracked (timeoutsRef s) (loop_ro s)"
proof (induction rule: reachableRollout.induct)
  case rr_init
  show ?case by (simp add: rolloutInit_def emptyLoop_def tracked_def)
next
  case (rr_reset s)
  then show ?case by (simp add: tracked_empty reset_quiet)
next
  case (rr_idle s d)
  then show ?case by (simp add: tracked_idle)
next
  case (rr_unmount s)
  from rr_unmount.IH have "tracked (timeoutsRef s) (fold clearTimeout (timeoutsRef s) (loop_ro s))"
    by (rule tracked_mono) (simp_all add: pending_fold_clear)
  then show ?case by (simp add: unmountRollout_def)
qed (simp_all add: tracked_startRollout tracked_startRollback tracked_stepRollout)

lemma rollout_reset_cancels_all:
  assumes "reachableRollout env s"
  shows "pending (loop_ro (reset env s)) = []"
    and "runRollout env n (reset env s) = reset env s"
    and "pending (loop_ro (clearAllTimeouts s)) = []"
    and "runRollout env n (clearAllTimeouts s) = clearAllTimeouts s"
proof -
  from tracked_reachableRollout [OF assms] show q: "pending (loop_ro (reset env s)) = []"
    by (rule reset_quiet)
  from q show "runRollout env n (reset env s) = reset env s" by (rule runRollout_quiet)
  from tracked_reachableRollout [OF assms] show c: "pending (loop_ro (clearAllTimeouts s)) = []"
    by (rule clearAll_quiet)
  from c show "runRollout env n (clearAllTimeouts s) = clearAllTimeouts s"
    by (rule runRollout_quiet)
qed

subsection \<open>Control plane journey: handleReset and unmount\<close>

lemma tracked_sleep:
  "tracked (timeoutIds_cp s) (loop_cp s) \<Longrightarrow>
   tracked (timeoutIds_cp (sleep ms k s)) (loop_cp (sleep ms k s))"
  using tracked_setTimeout [of "timeoutIds_cp s" "loop_cp s" k ms]
  by (simp add: sleep_def split_beta)

lemma tracked_runAllLoop:
  "tracked (timeoutIds_cp s) (loop_cp s) \<Longrightarrow>
   tracked (timeoutIds_cp (runAllLoop c s)) (loop_cp (runAllLoop c s))"
  using tracked_sleep [of "s\<lparr>traversingIndex := Some c\<rparr>" 480 "AfterTraverse c"]
  by (simp add: runAllLoop_def finishRunAll_def)

lemma tracked_advanceTo:
  "tracked (timeoutIds_cp s) (loop_cp s) \<Longrightarrow>
   tracked (timeoutIds_cp (advanceTo n s)) (loop_cp (advanceTo n s))"
  using tracked_sleep [of "s\<lparr>traversingIndex := Some (n - 1)\<rparr>" 480 "AdvanceDone n"]
  by (simp add: advanceTo_def)

lemma tracked_fireCpj:
  assumes "tracked (timeoutIds_cp s) (loop_cp s)"
  shows "tracked (timeoutIds_cp (fireCpj cb s)) (loop_cp (fireCpj cb s))"
proof (cases cb)
  case (AdvanceDone n)
  with assms show ?thesis by simp
next
  case (AfterTraverse c)
  with assms
    tracked_sleep [of "s\<lparr>traversingIndex := None, activeIndex := c + 1\<rparr>" 1000 "AfterPause (c + 1)"]
  show ?thesis by (simp add: finishRunAll_def)
next
  case (AfterPause c)
  with assms show ?thesis by (simp add: tracked_runAllLoop)
qed

lemma tracked_stepCpj:
  assumes "tracked (timeoutIds_cp s) (loop_cp s)"
  shows "tracked (timeoutIds_cp (stepCpj s)) (loop_cp (stepCpj s))"
proof (cases "popTimer (loop_cp s)")
  case None
  with assms show ?thesis by (simp add: stepCpj_def)
next
  case (Some p)
  obtain cb l where p: "p = (cb, l)" by (cases p)
  with Some have ps: "popTimer (loop_cp s) = Some (cb, l)" by simp
  from tracked_pop [OF assms ps]
  have "tracked (timeoutIds_cp (s\<lparr>loop_cp := l\<rparr>)) (loop_cp (s\<lparr>loop_cp := l\<rparr>))" by simp
  from tracked_fireCpj [OF this] ps show ?thesis by (simp add: stepCpj_def)
qed

lemma tracked_reachableCpj: "reachableCpj s \<Longrightarrow> tracked (timeoutIds_cp s) (loop_cp s)"
proof (induction rule: reachableCpj.induct)
  case rc_init
  show ?case by (simp add: cpjInit_def emptyLoop_def tracked_def)
next
  case (rc_next s)
  then show ?case by (simp add: handleNext_def tracked_advanceTo)
next
  case (rc_reset s)
  then show ?case by (simp add: handleReset_def tracked_empty tracked_clear)
next
  case (rc_runAll s)
  with tracked_runAllLoop [of "s\<lparr>runAllRef := True, isRunningAll := True\<rparr>" "activeIndex s"]
  show ?case by (simp add: runAll_def)
next
  case (rc_click s i)
  then show ?case by (simp add: nodeClick_def)
next
  case (rc_idle s d)
  then show ?case by (simp add: tracked_idle)
next
  case (rc_unmount s)
  then show ?case by (simp add: unmountCpj_def tracked_empty tracked_clear)
qed (simp_all add: tracked_advanceTo tracked_stepCpj)

lemma runCpj_quiet: "pending (loop_cp s) = [] \<Longrightarrow> runCpj n s = s"
proof -
  assume "pending (loop_cp s) = []"
  then have "stepCpj s = s" by (simp add: stepCpj_def popTimer_def)
  then show ?thesis by (induction n) simp_all
qed

lemma cpj_reset_cancels_all:
  assumes "reachableCpj s"
  shows "pending (loop_cp (handleReset s)) = []"
    and "runCpj n (handleReset s) = handleReset s"
    and "pending (loop_cp (unmountCpj s)) = []"
    and "runCpj n (unmountCpj s) = unmountCpj s"
proof -
  from tracked_reachableCpj [OF assms] show a: "pending (loop_cp (handleReset s)) = []"
    by (simp add: handleReset_def tracked_clear)
  from a show "runCpj n (handleReset s) = handleReset s" by (rule runCpj_quiet)
  from tracked_reachableCpj [OF assms] show b: "pending (loop_cp (unmountCpj s)) = []"
    by (simp add: unmountCpj_def tracked_clear)
  from b show "runCpj n (unmountCpj s) = unmountCpj s" by (rule runCpj_quiet)
qed

subsection \<open>NetworkPolicy simulator: unmount\<close>

lemma tracked_sendTraffic:
  "tracked (timeoutIds_np s) (loop_np s) \<Longrightarrow>
   tracked (timeoutIds_np (sendTraffic src dst s)) (loop_np (sendTraffic src dst s))"
  using tracked_setTimeout [of "timeoutIds_np s" "loop_np s" "Deliver src dst (policyActive s)" 800]
  by (simp add: sendTraffic_def split_beta Let_def)

lemma tracked_stepNet:
  assumes "tracked (timeoutIds_np s) (loop_np s)"
  shows "tracked (timeoutIds_np (stepNet s)) (loop_np (stepNet s))"
proof (cases "popTimer (loop_np s)")
  case None
  with assms show ?thesis by (simp add: stepNet_def)
next
  case (Some p)
  obtain cb l where p: "p = (cb, l)" by (cases p)
  with Some have ps: "popTimer (loop_np s) = Some (cb, l)" by simp
  from tracked_pop [OF assms ps]
  have "tracked (timeoutIds_np (fireNet cb (s\<lparr>loop_np := l\<rparr>))) (loop_np (fireNet cb (s\<lparr>loop_np := l\<rparr>)))"
    by (cases cb) (simp add: Let_def)
  with ps show ?thesis by (simp add: stepNet_def)
qed

lemma tracked_reachableNet: "reachableNet s \<Longrightarrow> tracked (timeoutIds_np s) (loop_np s)"
proof (induction rule: reachableNet.induct)
  case rn_init
  show ?case by (simp add: netpolInit_def emptyLoop_def tracked_def)
next
  case (rn_toggle s)
  then show ?case by (simp add: togglePolicy_def)
next
  case (rn_idle s d)
  then show ?case by (simp add: tracked_idle)
next
  case (rn_unmount s)
  then show ?case by (simp add: unmountNet_def tracked_empty tracked_clear)
qed (simp_all add: tracked_sendTraffic tracked_stepNet)

lemma net_unmount_cancels_all:
  assumes "reachableNet s"
  shows "pending (loop_np (unmountNet s)) = []" and "runNet n (unmountNet s) = unmountNet s"
proof -
  from tracked_reachableNet [OF assms] show a: "pending (loop_np (unmountNet s)) = []"
    by (simp add: unmountNet_def tracked_clear)
  then have "stepNet (unmountNet s) = unmountNet s" by (simp add: stepNet_def popTimer_def)
  then show "runNet n (unmountNet s) = unmountNet s" by (induction n) simp_all
qed

subsection \<open>A pending advance after a jump back\<close>

lemma cpj_advance_fires_after_jump_back:
  "activeIndex (nodeClick 1 (handleNext (stepCpj (advanceTo 3 cpjInit)))) = 1
   \<and> \<not> isRunningAll (nodeClick 1 (handleNext (stepCpj (advanceTo 3 cpjInit))))
   \<and> activeIndex (stepCpj (nodeClick 1 (handleNext (stepCpj (advanceTo 3 cpjInit))))) = 4"
  by (simp add: cpjInit_def advanceTo_def sleep_def setTimeout_def emptyLoop_def stepCpj_def
      popTimer_def nSteps_6 nodeClick_def handleNext_def isFinished_def)

subsection \<open>Service routing: the type change\<close>

lemmas svc_eval =
  svcInit_def handleSendRequest_def handleTypeChange_def enterLayer_def afterLoop_def
  finishSend_def scheduleTimeout_sr_def setTimeout_def emptyLoop_def layerPath_def
  isPodsVisible_def POD_TARGETS_def stepSvc_def popTimer_def Let_def waitSvc_def idle_def

text \<open>
  Claim C1 on the service routing simulator. A request is sent and the service type is
  changed 100 ms into the first delay: \<^verbatim>\<open>handleTypeChange\<close> raises the abort flag and clears
  the animation state, but cancels no timer and schedules the flag to be lowered after
  50 ms. The delay of the request, scheduled before the change, is still pending; once the
  flag is lowered its continuation runs on, lights the pods layer and targets a pod.
\<close>

theorem service_routing_timer_fires_after_abort:
  "abortRef (handleTypeChange NodePort (waitSvc 100 (handleSendRequest svcInit)))
   \<and> \<not> animating_sr (handleTypeChange NodePort (waitSvc 100 (handleSendRequest svcInit)))
   \<and> activeLayerId (handleTypeChange NodePort (waitSvc 100 (handleSendRequest svcInit))) = None
   \<and> targetedPod (handleTypeChange NodePort (waitSvc 100 (handleSendRequest svcInit))) = None
   \<and> map callback (pending (loop_sr (handleTypeChange NodePort (waitSvc 100 (handleSendRequest svcInit)))))
       = [AfterShow [] ''pod-a'' True, AllowNext]
   \<and> activeLayerId (runSvc 3 (handleTypeChange NodePort (waitSvc 100 (handleSendRequest svcInit))))
       = Some ''pods''
   \<and> targetedPod (runSvc 4 (handleTypeChange NodePort (waitSvc 100 (handleSendRequest svcInit))))
       = Some ''pod-a''"
proof -
  have three: "(3::nat) = Suc (Suc (Suc 0))" and four: "(4::nat) = Suc (Suc (Suc (Suc 0)))"
    by simp_all
  have a: "abortRef (handleTypeChange NodePort (waitSvc 100 (handleSendRequest svcInit)))"
    and b: "\<not> animating_sr (handleTypeChange NodePort (waitSvc 100 (handleSendRequest svcInit)))"
    and c: "activeLayerId (handleTypeChange NodePort (waitSvc 100 (handleSendRequest svcInit))) = None"
    and d: "targetedPod (handleTypeChange NodePort (waitSvc 100 (handleSendRequest svcInit))) = None"
    and e: "map callback (pending (loop_sr (handleTypeChange NodePort (waitSvc 100 (handleSendRequest svcInit)))))
       = [AfterShow [] ''pod-a'' True, AllowNext]"
    by (simp_all add: svc_eval)
  have f: "activeLayerId (runSvc 3 (handleTypeChange NodePort (waitSvc 100 (handleSendRequest svcInit))))
       = Some ''pods''"
    unfolding three by (simp add: svc_eval)
  have g: "targetedPod (runSvc 4 (handleTypeChange NodePort (waitSvc 100 (handleSendRequest svcInit))))
       = Some ''pod-a''"
    unfolding four by (simp add: svc_eval)
  from a b c d e f g show ?thesis by blast
qed

end
